theory Spec2Isabelle
  imports Complex_Main "HOL-Library.AList"
begin

section \<open>Values exchanged with the upstream provider\<close>

text \<open>
  The two servers of the repository (the WebSocket server, second listing of
  \<^verbatim>\<open>src/unnamed/part_000\<close>, and the socket.io server, \<^verbatim>\<open>src/unnamed/part_001\<close>)
  talk to the same upstream API through axios. A scalar field of an upstream record is a
  JSON number, boolean or null, or is absent (\<^verbatim>\<open>undefined\<close>). Numbers are the values
  of the parsed doubles, so \<^verbatim>\<open>!==\<close> on two such fields is inequality of the values.
\<close>

datatype jsval = JUndefined | JNull | JBool bool | JNum rat

text \<open>\<^verbatim>\<open>v >= 0\<close>: undefined converts to NaN, null to 0, true to 1, false to 0.\<close>

fun ge_zero :: "jsval \<Rightarrow> bool" where
  "ge_zero JUndefined = False"
| "ge_zero JNull = True"
| "ge_zero (JBool b) = True"
| "ge_zero (JNum q) = (0 \<le> q)"

text \<open>
  A token or a trading code is a string, or null, or is absent (\<^verbatim>\<open>undefined\<close>). It is
  truthy when it is a non-empty string. As keys of a \<^verbatim>\<open>Map\<close>, null and undefined are two
  keys.
\<close>

datatype jsstring = SUndefined | SNull | SString string

fun truthy :: "jsstring \<Rightarrow> bool" where
  "truthy (SString v) = (v \<noteq> [])"
| "truthy t = False"

text \<open>
  The value of any other field of an upstream record, as far as the socket.io server can
  come to read it (through the prototype of its store): the value is falsy, or it is truthy
  and has these \<^verbatim>\<open>last_trading_price\<close> and \<^verbatim>\<open>change\<close> (both undefined for a string, a
  number and a boolean).
\<close>

datatype field_value = FalsyValue | TruthyValue jsval jsval

text \<open>
  An upstream record, with the fields either server reads. The WebSocket server reads
  \<^verbatim>\<open>dseCompanyCode\<close>, \<^verbatim>\<open>ycp\<close>, \<^verbatim>\<open>mktValueChange\<close> and \<^verbatim>\<open>mktValChangePercentage\<close>;
  the socket.io server reads \<^verbatim>\<open>dseCompanyCode\<close>, \<^verbatim>\<open>trading_code\<close>,
  \<^verbatim>\<open>last_trading_price\<close> and \<^verbatim>\<open>change\<close>. \<open>other_fields\<close> lists the other fields
  by name.
\<close>

record stock =
  dseCompanyCode :: jsstring
  trading_code :: jsstring
  ycp :: jsval
  mktValueChange :: jsval
  mktValChangePercentage :: jsval
  last_trading_price :: jsval
  change :: jsval
  other_fields :: "(string \<times> field_value) list"

text \<open>
  The body of a data response (\<^verbatim>\<open>response.data\<close>): null or undefined, another falsy
  value (axios gives the empty string for an empty body), an array, an object whose
  \<^verbatim>\<open>result\<close> is an array, or any other value, seen through the fields read from it.
  An element of an array is \<open>None\<close> when it is null (reading a field of it throws a
  TypeError) and \<open>Some\<close> of its fields otherwise.
\<close>

datatype body =
  BNull | BEmpty | BArray "stock option list" | BResult "stock option list" | BObject stock

datatype err_code = ETIMEDOUT | ECONNRESET | ECONNABORTED | ERR_OTHER

text \<open>
  The body of an authentication response. \<open>resultCode\<close> is
  \<^verbatim>\<open>response.data.result.resultCode\<close>, \<open>None\<close> when \<^verbatim>\<open>response.data.result\<close> is missing
  (reading the code then throws a TypeError); \<open>resultData\<close> is
  \<^verbatim>\<open>response.data.result.data\<close>, \<open>None\<close> when missing, else its \<^verbatim>\<open>authToken\<close> field;
  \<open>altToken\<close> is the value of \<^verbatim>\<open>response.data?.data?.authToken ||
  response.data?.authToken || response.data?.token\<close>.
\<close>

record auth_body =
  resultCode :: "string option"
  resultData :: "jsstring option"
  altToken :: jsstring

text \<open>What an awaited axios call resolves to: a response with its status, or a thrown error
  with its \<^verbatim>\<open>code\<close> and, when the server answered, \<^verbatim>\<open>error.response.status\<close>.\<close>

datatype post_outcome = PostResponse nat auth_body | PostError err_code
datatype get_outcome = GetResponse nat body | GetError err_code "nat option"

text \<open>The four payload formats of \<^verbatim>\<open>getAuthToken\<close>; \<^verbatim>\<open>getIDLCAuthToken\<close> sends the second.\<close>

datatype payload = EmailID_Password | Data_EmailID_Password | Email_password | Username_password

section \<open>Async functions as resumable tasks\<close>

text \<open>
  An async function runs until it returns or reaches an \<^verbatim>\<open>await\<close> of a network call or of
  a timer. A task is either finished, with its result and the state it leaves, or suspended
  on a request, with the state at the suspension and the continuation that takes the
  outcome and the state found at the resumption.
\<close>

datatype ('s, 'a) task =
    Return 'a 's
  | AwaitPost payload 's "post_outcome \<Rightarrow> 's \<Rightarrow> ('s, 'a) task"
  | AwaitGet jsstring 's "get_outcome \<Rightarrow> 's \<Rightarrow> ('s, 'a) task"
  | AwaitSleep nat 's "'s \<Rightarrow> ('s, 'a) task"

text \<open>\<^verbatim>\<open>const x = await m; f x\<close>\<close>

primrec abind :: "('s, 'a) task \<Rightarrow> ('a \<Rightarrow> 's \<Rightarrow> ('s, 'b) task) \<Rightarrow> ('s, 'b) task" where
  "abind (Return a s) f = f a s"
| "abind (AwaitPost p s k) f = AwaitPost p s (\<lambda>r s1. abind (k r s1) f)"
| "abind (AwaitGet t s k) f = AwaitGet t s (\<lambda>r s1. abind (k r s1) f)"
| "abind (AwaitSleep ms s k) f = AwaitSleep ms s (\<lambda>s1. abind (k s1) f)"

text \<open>
  Running one task alone to its end. The environment answers the \<open>i\<close>-th await of the run
  and gives the time at which the task resumes; \<open>set_now\<close> stores that time in the state.
  The run returns the result, the final state and the requests made, in order.
\<close>

record env =
  post_reply :: "nat \<Rightarrow> post_outcome"
  get_reply :: "nat \<Rightarrow> get_outcome"
  clock :: "nat \<Rightarrow> nat"

datatype event = Posted payload post_outcome | Fetched jsstring get_outcome | Slept nat

primrec run :: "('s, 'a) task \<Rightarrow> env \<Rightarrow> (nat \<Rightarrow> 's \<Rightarrow> 's) \<Rightarrow> nat \<Rightarrow> 'a \<times> 's \<times> event list" where
  "run (Return a s) e set_now i = (a, s, [])"
| "run (AwaitPost p s k) e set_now i =
     (case run (k (post_reply e i) (set_now (clock e i) s)) e set_now (Suc i) of
        (a, s1, tr) \<Rightarrow> (a, s1, Posted p (post_reply e i) # tr))"
| "run (AwaitGet t s k) e set_now i =
     (case run (k (get_reply e i) (set_now (clock e i) s)) e set_now (Suc i) of
        (a, s1, tr) \<Rightarrow> (a, s1, Fetched t (get_reply e i) # tr))"
| "run (AwaitSleep ms s k) e set_now i =
     (case run (k (set_now (clock e i) s)) e set_now (Suc i) of
        (a, s1, tr) \<Rightarrow> (a, s1, Slept ms # tr))"

fun is_post :: "event \<Rightarrow> bool" where
  "is_post (Posted p r) = True"
| "is_post ev = False"

fun is_fetch :: "event \<Rightarrow> bool" where
  "is_fetch (Fetched t r) = True"
| "is_fetch ev = False"

fun sleeps :: "event list \<Rightarrow> nat list" where
  "sleeps [] = []"
| "sleeps (Slept ms # tr) = ms # sleeps tr"
| "sleeps (ev # tr) = sleeps tr"

definition posts :: "event list \<Rightarrow> nat" where
  "posts tr = length (filter is_post tr)"

definition fetches :: "event list \<Rightarrow> nat" where
  "fetches tr = length (filter is_fetch tr)"

section \<open>The WebSocket server\<close>

text \<open>
  A record as the server stores and sends it, and the server's variables:
  \<^verbatim>\<open>authToken\<close>, \<^verbatim>\<open>latestStockMap\<close> (a \<^verbatim>\<open>Map\<close>: keys in insertion order, a key set again
  keeps its place) and \<^verbatim>\<open>clients\<close> (a \<^verbatim>\<open>Set\<close> of sockets, here their identifiers in
  insertion order). \<open>readyState\<close> is the state of each socket, \<open>outbox\<close> what was sent on it,
  \<open>now\<close> the clock.
\<close>

record mapped_item =
  m_trading_code :: jsstring
  m_last_trading_price :: jsval
  m_change :: jsval
  m_change_percent :: jsval
  m_indicator :: string

record ws_message =
  msg_type :: string
  msg_data :: "mapped_item list"
  msg_timestamp :: nat

datatype ready_state = CONNECTING | OPEN | CLOSING | CLOSED

record ws_state =
  authToken :: jsstring
  latestStockMap :: "(jsstring \<times> mapped_item) list"
  clients :: "nat list"
  readyState :: "nat \<Rightarrow> ready_state"
  outbox :: "nat \<Rightarrow> ws_message list"
  now :: nat

definition ws_set_now :: "nat \<Rightarrow> ws_state \<Rightarrow> ws_state" where
  "ws_set_now t s = s\<lparr>now := t\<rparr>"

subsection \<open>\<^verbatim>\<open>getIDLCAuthToken\<close>\<close>

definition transient_auth :: "err_code \<Rightarrow> bool" where
  "transient_auth c = (c = ETIMEDOUT \<or> c = ECONNRESET \<or> c = ECONNABORTED)"

text \<open>
  The loop \<^verbatim>\<open>for (attempt = 1; attempt <= retryCount; attempt++)\<close>, entered at \<open>attempt\<close>.
  A response without \<^verbatim>\<open>result\<close>, or with code 200 and without \<^verbatim>\<open>result.data\<close>, throws
  inside the \<^verbatim>\<open>try\<close>; the error has no transient code, so the \<^verbatim>\<open>catch\<close> returns null.
\<close>

function getIDLCAuthToken_from :: "nat \<Rightarrow> nat \<Rightarrow> ws_state \<Rightarrow> (ws_state, jsstring) task" where
  "getIDLCAuthToken_from attempt retryCount s =
     (if attempt \<le> retryCount then
        AwaitPost Data_EmailID_Password s (\<lambda>r s1.
          case r of
            PostResponse st b \<Rightarrow>
              (case resultCode b of
                 None \<Rightarrow> Return SNull s1
               | Some c \<Rightarrow>
                   if c = ''200'' then
                     (case resultData b of
                        None \<Rightarrow> Return SNull s1
                      | Some t \<Rightarrow> Return t (s1\<lparr>authToken := t\<rparr>))
                   else if attempt < retryCount then
                     AwaitSleep (5000 * attempt) s1
                       (\<lambda>s2. getIDLCAuthToken_from (Suc attempt) retryCount s2)
                   else getIDLCAuthToken_from (Suc attempt) retryCount s1)
          | PostError c \<Rightarrow>
              if transient_auth c \<and> attempt < retryCount then
                AwaitSleep (5000 * attempt) s1
                  (\<lambda>s2. getIDLCAuthToken_from (Suc attempt) retryCount s2)
              else Return SNull s1)
      else Return SNull s)"
  by pat_completeness auto
termination
  by (relation "measure (\<lambda>(attempt, retryCount, s). Suc retryCount - attempt)") auto

declare getIDLCAuthToken_from.simps [simp del]

definition getIDLCAuthToken :: "nat \<Rightarrow> ws_state \<Rightarrow> (ws_state, jsstring) task" where
  "getIDLCAuthToken retryCount s = getIDLCAuthToken_from 1 retryCount s"

text \<open>A reply that makes \<^verbatim>\<open>getIDLCAuthToken\<close> try again while attempts remain: a transient
  error, or a response with a result code other than 200.\<close>

fun auth_retryable :: "post_outcome \<Rightarrow> bool" where
  "auth_retryable (PostError c) = transient_auth c"
| "auth_retryable (PostResponse st b) =
     (case resultCode b of None \<Rightarrow> False | Some c \<Rightarrow> c \<noteq> ''200'')"

subsection \<open>\<^verbatim>\<open>getAllStockCompanies\<close>\<close>

text \<open>A value without any of the fields read: an object that is not a record, or a string,
  a number or a boolean (reading a field of those gives undefined).\<close>

definition no_fields :: stock where
  "no_fields = \<lparr>dseCompanyCode = SUndefined, trading_code = SUndefined, ycp = JUndefined,
     mktValueChange = JUndefined, mktValChangePercentage = JUndefined,
     last_trading_price = JUndefined, change = JUndefined, other_fields = []\<rparr>"

text \<open>\<^verbatim>\<open>if (response.data)\<close> and
  \<^verbatim>\<open>Array.isArray(response.data) ? response.data : [response.data]\<close>\<close>

fun body_truthy :: "body \<Rightarrow> bool" where
  "body_truthy BNull = False"
| "body_truthy BEmpty = False"
| "body_truthy b = True"

fun as_array :: "body \<Rightarrow> stock option list" where
  "as_array (BArray xs) = xs"
| "as_array (BResult xs) = [Some no_fields]"
| "as_array (BObject x) = [Some x]"
| "as_array b = [Some no_fields]"

text \<open>
  The loop of \<^verbatim>\<open>getAllStockCompanies\<close>, entered at \<open>attempt\<close> with the current value
  of the local \<^verbatim>\<open>token\<close>. On a 401 it awaits \<^verbatim>\<open>getIDLCAuthToken()\<close> (default retry
  count 5) and reads the variable \<^verbatim>\<open>authToken\<close> into \<^verbatim>\<open>token\<close>, whatever that call
  returned.
\<close>

function getAllStockCompanies_from ::
  "nat \<Rightarrow> nat \<Rightarrow> jsstring \<Rightarrow> ws_state \<Rightarrow> (ws_state, stock option list option) task" where
  "getAllStockCompanies_from attempt retryCount token s =
     (if attempt \<le> retryCount then
        AwaitGet token s (\<lambda>r s1.
          case r of
            GetResponse st b \<Rightarrow>
              if body_truthy b then Return (Some (as_array b)) s1
              else if attempt < retryCount then
                getAllStockCompanies_from (Suc attempt) retryCount token s1
              else Return None s1
          | GetError c status \<Rightarrow>
              if transient_auth c \<or> status = Some 401 then
                abind
                  (if status = Some 401 then
                     abind (getIDLCAuthToken 5 s1) (\<lambda>t s2. Return (authToken s2) s2)
                   else Return token s1)
                  (\<lambda>token1 s2.
                     if attempt < retryCount then
                       AwaitSleep (5000 * attempt) s2
                         (\<lambda>s3. getAllStockCompanies_from (Suc attempt) retryCount token1 s3)
                     else Return None s2)
              else Return None s1)
      else Return None s)"
  by pat_completeness auto
termination
  by (relation "measure (\<lambda>(attempt, retryCount, token, s). Suc retryCount - attempt)") auto

declare getAllStockCompanies_from.simps [simp del]

definition getAllStockCompanies ::
  "jsstring \<Rightarrow> nat \<Rightarrow> ws_state \<Rightarrow> (ws_state, stock option list option) task" where
  "getAllStockCompanies token retryCount s =
     (if \<not> truthy token then Return None s
      else getAllStockCompanies_from 1 retryCount token s)"

subsection \<open>\<^verbatim>\<open>fetchAndBroadcastStockData\<close>\<close>

definition mapItem :: "stock \<Rightarrow> mapped_item" where
  "mapItem item =
     \<lparr>m_trading_code = dseCompanyCode item,
      m_last_trading_price = ycp item,
      m_change = mktValueChange item,
      m_change_percent = mktValChangePercentage item,
      m_indicator = (if ge_zero (mktValueChange item) then ''Up'' else ''Down'')\<rparr>"

text \<open>
  The \<^verbatim>\<open>stockData.forEach\<close> callback on the locals \<^verbatim>\<open>newStockMap\<close> and \<^verbatim>\<open>updates\<close>;
  \<open>latest\<close> is \<^verbatim>\<open>latestStockMap\<close>. The loop stops with \<open>None\<close> at a null element (the
  TypeError leaves the function, the locals are lost).
\<close>

definition forEach_body ::
  "bool \<Rightarrow> (jsstring \<times> mapped_item) list \<Rightarrow> stock \<Rightarrow>
   (jsstring \<times> mapped_item) list \<times> mapped_item list \<Rightarrow>
   (jsstring \<times> mapped_item) list \<times> mapped_item list" where
  "forEach_body isInitial latest item acc =
     (case acc of (newStockMap, updates) \<Rightarrow>
        let mappedItem = mapItem item;
            key = m_trading_code mappedItem;
            newStockMap1 = AList.update key mappedItem newStockMap;
            prevItem = map_of latest key
        in if isInitial \<or> prevItem = None \<or>
              m_last_trading_price (the prevItem) \<noteq> m_last_trading_price mappedItem \<or>
              m_change (the prevItem) \<noteq> m_change mappedItem \<or>
              m_change_percent (the prevItem) \<noteq> m_change_percent mappedItem
           then (newStockMap1, updates @ [mappedItem])
           else (newStockMap1, updates))"

fun forEach_stock ::
  "bool \<Rightarrow> (jsstring \<times> mapped_item) list \<Rightarrow> stock option list \<Rightarrow>
   (jsstring \<times> mapped_item) list \<times> mapped_item list \<Rightarrow>
   ((jsstring \<times> mapped_item) list \<times> mapped_item list) option" where
  "forEach_stock isInitial latest [] acc = Some acc"
| "forEach_stock isInitial latest (None # rest) acc = None"
| "forEach_stock isInitial latest (Some item # rest) acc =
     forEach_stock isInitial latest rest (forEach_body isInitial latest item acc)"

text \<open>\<^verbatim>\<open>clients.forEach(client => { if (client.readyState === WebSocket.OPEN)
  client.send(message) })\<close>. On an open socket \<^verbatim>\<open>send\<close> queues the message and does not
  throw; a failure of the transport comes later, as the socket's error or close event.\<close>

definition send :: "ws_message \<Rightarrow> nat \<Rightarrow> ws_state \<Rightarrow> ws_state" where
  "send message client s = s\<lparr>outbox := (outbox s)(client := outbox s client @ [message])\<rparr>"

definition broadcast :: "ws_message \<Rightarrow> ws_state \<Rightarrow> ws_state" where
  "broadcast message s =
     fold (\<lambda>client s1. if readyState s1 client = OPEN then send message client s1 else s1)
       (clients s) s"

text \<open>How a cycle ended. The source returns nothing; the value names the path taken.\<close>

datatype cycle_result =
  NoToken | NoData | Rejected | NoChanges | Broadcasted ws_message

text \<open>The body of \<^verbatim>\<open>if (stockData) { ... }\<close>.\<close>

definition publish :: "bool \<Rightarrow> stock option list \<Rightarrow> ws_state \<Rightarrow> cycle_result \<times> ws_state" where
  "publish isInitial stockData s =
     (case forEach_stock isInitial (latestStockMap s) stockData ([], []) of
        None \<Rightarrow> (Rejected, s)
      | Some (newStockMap, updates) \<Rightarrow>
          let s1 = s\<lparr>latestStockMap := newStockMap\<rparr> in
          if updates \<noteq> [] \<or> isInitial then
            let message =
              \<lparr>msg_type = (if isInitial then ''stock_data'' else ''stock_update''),
               msg_data = (if isInitial then map snd newStockMap else updates),
               msg_timestamp = now s1\<rparr>
            in (Broadcasted message, broadcast message s1)
          else (NoChanges, s1))"

definition fetchAndBroadcastStockData :: "bool \<Rightarrow> ws_state \<Rightarrow> (ws_state, cycle_result) task" where
  "fetchAndBroadcastStockData isInitial s =
     abind
       (if \<not> truthy (authToken s) then getIDLCAuthToken 5 s else Return (authToken s) s)
       (\<lambda>token s1.
          if \<not> truthy token then Return NoToken s1
          else abind (getAllStockCompanies (authToken s1) 5 s1)
            (\<lambda>stockData s2.
               case stockData of
                 None \<Rightarrow> Return NoData s2
               | Some items \<Rightarrow> (case publish isInitial items s2 of (r, s3) \<Rightarrow> Return r s3)))"

subsection \<open>Socket events\<close>

text \<open>\<^verbatim>\<open>wss.on("connection")\<close> up to the call of \<^verbatim>\<open>fetchAndBroadcastStockData(true)\<close>, which
  the event loop below starts when no data is stored; the close and the error handler.\<close>

definition on_connection :: "nat \<Rightarrow> ws_state \<Rightarrow> ws_state" where
  "on_connection ws s =
     (let s1 = s\<lparr>clients := (if ws \<in> set (clients s) then clients s else clients s @ [ws])\<rparr>
      in if latestStockMap s1 \<noteq> [] then
           send \<lparr>msg_type = ''stock_data'', msg_data = map snd (latestStockMap s1),
                 msg_timestamp = now s1\<rparr> ws s1
         else s1)"

definition on_close :: "nat \<Rightarrow> ws_state \<Rightarrow> ws_state" where
  "on_close ws s = s\<lparr>clients := removeAll ws (clients s)\<rparr>"

definition on_error :: "nat \<Rightarrow> ws_state \<Rightarrow> ws_state" where
  "on_error ws s = s\<lparr>clients := removeAll ws (clients s)\<rparr>"

section \<open>The socket.io server\<close>

section \<open>The socket.io server\<close>

text \<open>The errors thrown in \<^verbatim>\<open>getAuthToken\<close> and \<^verbatim>\<open>fetchStockData\<close>; a TypeError names the
  property that was read from null.\<close>

datatype js_error =
    AxiosError err_code "nat option"
  | AllAttemptsFailed
  | NoAuthTokenAvailable
  | ApiReturnedStatus nat
  | TypeError string

text \<open>What the server emits: the event name with its payload. \<^verbatim>\<open>stock-updates\<close> carries
  the array of upstream records itself.\<close>

datatype sio_message =
    AuthStatusAuthenticated nat
  | AuthStatusError js_error nat
  | StockUpdates "stock list"
  | FetchStatusError js_error nat
  | ServerStatus bool "nat option" nat

text \<open>
  The server's variables. \<^verbatim>\<open>previousStockData\<close> is a plain object used as a dictionary:
  the list holds its own properties in the order in which \<^verbatim>\<open>Object.values\<close> and
  \<^verbatim>\<open>Object.keys\<close> list them, and \<open>prototype\<close> is the record that an assignment to
  \<^verbatim>\<open>__proto__\<close> has made its prototype, \<open>None\<close> while the prototype is
  \<^verbatim>\<open>Object.prototype\<close>. \<open>emitted\<close> lists what \<^verbatim>\<open>io.emit\<close> sent to all sockets.
\<close>

record sio_state =
  sio_authToken :: jsstring
  previousStockData :: "(string \<times> stock) list"
  prototype :: "stock option"
  lastFetchTime :: "nat option"
  tokenExpiryTime :: "nat option"
  emitted :: "sio_message list"
  sio_now :: nat

definition sio_set_now :: "nat \<Rightarrow> sio_state \<Rightarrow> sio_state" where
  "sio_set_now t s = s\<lparr>sio_now := t\<rparr>"

definition io_emit :: "sio_message \<Rightarrow> sio_state \<Rightarrow> sio_state" where
  "io_emit m s = s\<lparr>emitted := emitted s @ [m]\<rparr>"

subsection \<open>\<^verbatim>\<open>getAuthToken\<close>\<close>

definition payloadFormats :: "payload list" where
  "payloadFormats = [EmailID_Password, Data_EmailID_Password, Email_password, Username_password]"

text \<open>\<^verbatim>\<open>response.data?.result?.data?.authToken || response.data?.data?.authToken ||
  response.data?.authToken || response.data?.token\<close>\<close>

definition probe_token :: "auth_body \<Rightarrow> jsstring" where
  "probe_token b =
     (let t = (case resultData b of None \<Rightarrow> SUndefined | Some t \<Rightarrow> t)
      in if truthy t then t else altToken b)"

text \<open>The loop over the payload formats, with \<^verbatim>\<open>lastError\<close>; after the loop the
  \<^verbatim>\<open>throw\<close> is caught by the outer \<^verbatim>\<open>catch\<close>, which emits the error and returns null.\<close>

fun try_payloads ::
  "payload list \<Rightarrow> js_error option \<Rightarrow> sio_state \<Rightarrow> (sio_state, jsstring) task" where
  "try_payloads [] lastError s =
     Return SNull
       (io_emit (AuthStatusError (case lastError of None \<Rightarrow> AllAttemptsFailed | Some err \<Rightarrow> err)
          (sio_now s)) s)"
| "try_payloads (p # rest) lastError s =
     AwaitPost p s (\<lambda>r s1.
       case r of
         PostResponse status b \<Rightarrow>
           if status = 200 \<and> truthy (probe_token b) then
             Return (probe_token b)
               (io_emit (AuthStatusAuthenticated (sio_now s1))
                  (s1\<lparr>sio_authToken := probe_token b,
                      tokenExpiryTime := Some (sio_now s1 + 55 * 60 * 1000)\<rparr>))
           else try_payloads rest lastError s1
       | PostError c \<Rightarrow> try_payloads rest (Some (AxiosError c None)) s1)"

definition getAuthToken :: "bool \<Rightarrow> sio_state \<Rightarrow> (sio_state, jsstring) task" where
  "getAuthToken forceRefresh s =
     (if truthy (sio_authToken s) \<and> \<not> forceRefresh \<and>
         (case tokenExpiryTime s of None \<Rightarrow> False | Some t \<Rightarrow> t \<noteq> 0 \<and> sio_now s < t)
      then Return (sio_authToken s) s
      else try_payloads payloadFormats None s)"

subsection \<open>The object \<^verbatim>\<open>previousStockData\<close>\<close>

text \<open>
  The field \<open>k\<close> of a record, read as \<^verbatim>\<open>prev\<close>: \<open>None\<close> when the record has no such
  field.
\<close>

fun string_field :: "jsstring \<Rightarrow> field_value option" where
  "string_field SUndefined = None"
| "string_field SNull = Some FalsyValue"
| "string_field (SString v) =
     Some (if v = [] then FalsyValue else TruthyValue JUndefined JUndefined)"

fun scalar_field :: "jsval \<Rightarrow> field_value option" where
  "scalar_field JUndefined = None"
| "scalar_field JNull = Some FalsyValue"
| "scalar_field (JBool b) =
     Some (if b then TruthyValue JUndefined JUndefined else FalsyValue)"
| "scalar_field (JNum q) =
     Some (if q = 0 then FalsyValue else TruthyValue JUndefined JUndefined)"

definition field_of :: "stock \<Rightarrow> string \<Rightarrow> field_value option" where
  "field_of stk k =
     (if k = ''dseCompanyCode'' then string_field (dseCompanyCode stk)
      else if k = ''trading_code'' then string_field (trading_code stk)
      else if k = ''ycp'' then scalar_field (ycp stk)
      else if k = ''mktValueChange'' then scalar_field (mktValueChange stk)
      else if k = ''mktValChangePercentage'' then scalar_field (mktValChangePercentage stk)
      else if k = ''last_trading_price'' then scalar_field (last_trading_price stk)
      else if k = ''change'' then scalar_field (change stk)
      else map_of (other_fields stk) k)"

text \<open>The members of \<^verbatim>\<open>Object.prototype\<close> other than the accessor \<^verbatim>\<open>__proto__\<close>; all
  are functions.\<close>

definition object_prototype_names :: "string list" where
  "object_prototype_names =
     [''constructor'', ''__defineGetter__'', ''__defineSetter__'', ''hasOwnProperty'',
      ''__lookupGetter__'', ''__lookupSetter__'', ''isPrototypeOf'', ''propertyIsEnumerable'',
      ''toString'', ''valueOf'', ''toLocaleString'']"

text \<open>
  A property name is an array index when it is the decimal numeral, without leading zeros,
  of a number below \<open>2\<^sup>3\<^sup>2 - 1\<close>. An object lists its array indices first, in
  ascending order, and then its other names in the order of their creation.
\<close>

definition digit_of :: "char \<Rightarrow> nat option" where
  "digit_of c =
     map_of [(CHR ''0'', 0), (CHR ''1'', 1), (CHR ''2'', 2), (CHR ''3'', 3), (CHR ''4'', 4),
             (CHR ''5'', 5), (CHR ''6'', 6), (CHR ''7'', 7), (CHR ''8'', 8), (CHR ''9'', 9)] c"

definition digits_value :: "string \<Rightarrow> nat" where
  "digits_value k = foldl (\<lambda>n c. 10 * n + the (digit_of c)) 0 k"

definition array_index :: "string \<Rightarrow> nat option" where
  "array_index k =
     (if k = [] \<or> list_ex (\<lambda>c. digit_of c = None) k \<or> (hd k = CHR ''0'' \<and> k \<noteq> ''0'') \<or>
         4294967295 \<le> digits_value k
      then None else Some (digits_value k))"

fun insert_index ::
  "nat \<Rightarrow> string \<Rightarrow> stock \<Rightarrow> (string \<times> stock) list \<Rightarrow> (string \<times> stock) list" where
  "insert_index n k v [] = [(k, v)]"
| "insert_index n k v ((k1, v1) # rest) =
     (case array_index k1 of
        None \<Rightarrow> (k, v) # (k1, v1) # rest
      | Some n1 \<Rightarrow> if n1 < n then (k1, v1) # insert_index n k v rest
                   else (k, v) # (k1, v1) # rest)"

text \<open>Writing an own property: an existing one keeps its place, a new one is created.\<close>

definition own_set :: "string \<Rightarrow> stock \<Rightarrow> (string \<times> stock) list \<Rightarrow> (string \<times> stock) list" where
  "own_set k v own =
     (if map_of own k \<noteq> None then AList.update k v own
      else case array_index k of
             None \<Rightarrow> own @ [(k, v)]
           | Some n \<Rightarrow> insert_index n k v own)"

text \<open>
  \<^verbatim>\<open>previousStockData[k]\<close> where the object has no own property \<open>k\<close>: the field \<open>k\<close> of the
  record that is the prototype, if it has one; else the member of \<^verbatim>\<open>Object.prototype\<close>,
  where \<^verbatim>\<open>__proto__\<close> is a getter that returns the prototype of the object.
\<close>

definition inherited :: "stock option \<Rightarrow> string \<Rightarrow> field_value option" where
  "inherited proto k =
     (case (case proto of None \<Rightarrow> None | Some p \<Rightarrow> field_of p k) of
        Some f \<Rightarrow> Some f
      | None \<Rightarrow>
          if k = ''__proto__'' then
            Some (case proto of
                    None \<Rightarrow> TruthyValue JUndefined JUndefined
                  | Some p \<Rightarrow> TruthyValue (last_trading_price p) (change p))
          else if k \<in> set object_prototype_names then Some (TruthyValue JUndefined JUndefined)
          else None)"

text \<open>
  \<^verbatim>\<open>prev = previousStockData[k]\<close> as the callback reads it: \<open>None\<close> when \<^verbatim>\<open>prev\<close> is
  falsy, else \<^verbatim>\<open>prev.last_trading_price\<close> and \<^verbatim>\<open>prev.change\<close>.
\<close>

definition get_property ::
  "(string \<times> stock) list \<Rightarrow> stock option \<Rightarrow> string \<Rightarrow> (jsval \<times> jsval) option" where
  "get_property own proto k =
     (case map_of own k of
        Some v \<Rightarrow> Some (last_trading_price v, change v)
      | None \<Rightarrow>
          (case inherited proto k of
             Some (TruthyValue price chg) \<Rightarrow> Some (price, chg)
           | Some FalsyValue \<Rightarrow> None
           | None \<Rightarrow> None))"

text \<open>
  \<^verbatim>\<open>previousStockData[k] = stk\<close>. The assignment writes the own property \<open>k\<close>, except
  that \<^verbatim>\<open>__proto__\<close>, while neither the object nor the record that is its prototype has
  a property of that name, reaches the setter of \<^verbatim>\<open>Object.prototype\<close>, which makes \<open>stk\<close>
  the prototype of the object and creates no property.
\<close>

definition set_property ::
  "(string \<times> stock) list \<Rightarrow> stock option \<Rightarrow> string \<Rightarrow> stock \<Rightarrow>
   (string \<times> stock) list \<times> stock option" where
  "set_property own proto k stk =
     (if k = ''__proto__'' \<and> map_of own k = None \<and>
         (case proto of None \<Rightarrow> True | Some p \<Rightarrow> field_of p k = None)
      then (own, Some stk)
      else (own_set k stk own, proto))"

subsection \<open>\<^verbatim>\<open>fetchStockData\<close>\<close>

text \<open>\<^verbatim>\<open>Array.isArray(response.data) ? response.data :
  Array.isArray(response.data.result) ? response.data.result : [response.data]\<close>;
  \<open>None\<close> is the TypeError of reading \<^verbatim>\<open>result\<close> from null.\<close>

fun stock_array :: "body \<Rightarrow> stock option list option" where
  "stock_array BNull = None"
| "stock_array BEmpty = Some [Some no_fields]"
| "stock_array (BArray xs) = Some xs"
| "stock_array (BResult xs) = Some xs"
| "stock_array (BObject x) = Some [Some x]"

text \<open>\<^verbatim>\<open>stock.dseCompanyCode || stock.trading_code\<close>, and the name of the property that a
  truthy code selects.\<close>

definition stockCode :: "stock \<Rightarrow> jsstring" where
  "stockCode stk = (if truthy (dseCompanyCode stk) then dseCompanyCode stk else trading_code stk)"

fun property_name :: "jsstring \<Rightarrow> string" where
  "property_name (SString v) = v"
| "property_name SNull = ''null''"
| "property_name SUndefined = ''undefined''"

text \<open>The \<^verbatim>\<open>stockData.forEach\<close> callback: it writes into \<^verbatim>\<open>previousStockData\<close> and
  pushes onto \<^verbatim>\<open>updates\<close>.\<close>

definition process_stock ::
  "stock \<Rightarrow> (string \<times> stock) list \<times> stock option \<times> stock list \<Rightarrow>
   (string \<times> stock) list \<times> stock option \<times> stock list" where
  "process_stock stk acc =
     (case acc of (prevData, proto, updates) \<Rightarrow>
        if \<not> truthy (stockCode stk) then (prevData, proto, updates)
        else
          let prev = get_property prevData proto (property_name (stockCode stk));
              hasUpdate = (case prev of
                             None \<Rightarrow> True
                           | Some (price, chg) \<Rightarrow>
                               price \<noteq> last_trading_price stk \<or> chg \<noteq> change stk)
          in if hasUpdate then
               (case set_property prevData proto (property_name (stockCode stk)) stk of
                  (prevData1, proto1) \<Rightarrow> (prevData1, proto1, updates @ [stk]))
             else (prevData, proto, updates))"

text \<open>The loop; at a null element the TypeError leaves it (\<open>False\<close>) with what was written
  into \<^verbatim>\<open>previousStockData\<close> so far.\<close>

fun process_updates ::
  "stock option list \<Rightarrow> (string \<times> stock) list \<times> stock option \<times> stock list \<Rightarrow>
   bool \<times> (string \<times> stock) list \<times> stock option \<times> stock list" where
  "process_updates [] acc = (True, acc)"
| "process_updates (None # rest) acc = (False, acc)"
| "process_updates (Some stk # rest) acc = process_updates rest (process_stock stk acc)"

text \<open>What a call returns: the records, or null; \<open>Null\<close> carries the error that the
  \<^verbatim>\<open>catch\<close> received.\<close>

datatype fetch_result = Unfinished | Null js_error | Data "stock option list"

definition fetch_failed :: "js_error \<Rightarrow> sio_state \<Rightarrow> fetch_result \<times> sio_state" where
  "fetch_failed err s = (Null err, io_emit (FetchStatusError err (sio_now s)) s)"

text \<open>The function from \<^verbatim>\<open>const stockData = ...\<close> on, for a response of status 200.\<close>

definition store_updates :: "body \<Rightarrow> sio_state \<Rightarrow> fetch_result \<times> sio_state" where
  "store_updates b s =
     (case stock_array b of
        None \<Rightarrow> fetch_failed (TypeError ''result'') s
      | Some stockData \<Rightarrow>
          (case process_updates stockData (previousStockData s, prototype s, []) of
             (finished, prevData, proto, updates) \<Rightarrow>
               let s1 = s\<lparr>previousStockData := prevData, prototype := proto\<rparr> in
               if \<not> finished then fetch_failed (TypeError ''dseCompanyCode'') s1
               else
                 let s2 = s1\<lparr>lastFetchTime := Some (sio_now s1)\<rparr>;
                     s3 = (if updates \<noteq> [] then io_emit (StockUpdates updates) s2 else s2)
                 in (Data stockData, s3)))"

text \<open>
  \<^verbatim>\<open>fetchStockData\<close> calls itself on a response of status 401, without a bound; \<open>depth\<close>
  bounds the nesting of these calls in the model, and \<open>Unfinished\<close> is the result of a call
  that would nest deeper. (The axios instance is created without \<^verbatim>\<open>validateStatus\<close>, so
  it rejects every status outside 200 to 299: then a 401 arrives as a \<open>GetError\<close>.)
\<close>

fun fetchStockData :: "nat \<Rightarrow> sio_state \<Rightarrow> (sio_state, fetch_result) task" where
  "fetchStockData 0 s = Return Unfinished s"
| "fetchStockData (Suc depth) s =
     abind (getAuthToken False s) (\<lambda>token s1.
       if \<not> truthy token then
         (case fetch_failed NoAuthTokenAvailable s1 of (r, s2) \<Rightarrow> Return r s2)
       else AwaitGet token s1 (\<lambda>r s2.
         case r of
           GetError c status \<Rightarrow>
             (case fetch_failed (AxiosError c status) s2 of (r, s3) \<Rightarrow> Return r s3)
         | GetResponse status b \<Rightarrow>
             if status = 401 then fetchStockData depth (s2\<lparr>sio_authToken := SNull\<rparr>)
             else if status \<noteq> 200 then
               (case fetch_failed (ApiReturnedStatus status) s2 of (r, s3) \<Rightarrow> Return r s3)
             else (case store_updates b s2 of (r, s3) \<Rightarrow> Return r s3)))"

text \<open>\<^verbatim>\<open>io.on('connection')\<close>: what the new socket is sent.\<close>

definition sio_on_connection :: "sio_state \<Rightarrow> sio_message list" where
  "sio_on_connection s =
     (let stockValues = map snd (previousStockData s)
      in (if stockValues \<noteq> [] then [StockUpdates stockValues] else []) @
         [ServerStatus (truthy (sio_authToken s)) (lastFetchTime s)
            (length (previousStockData s))])"

section \<open>The event loop\<close>

text \<open>
  Node runs one handler at a time, each until it returns or awaits. The world is the
  server's variables and the calls suspended on a request, oldest first. Starting an async
  function runs it to its first await; an outcome resumes the call that waits for it.
\<close>

datatype 's suspended =
    OnPost payload "post_outcome \<Rightarrow> 's \<Rightarrow> ('s, unit) task"
  | OnGet jsstring "get_outcome \<Rightarrow> 's \<Rightarrow> ('s, unit) task"
  | OnSleep nat "'s \<Rightarrow> ('s, unit) task"

datatype request = PostRequest payload | GetRequest jsstring | Timer nat

fun request_of :: "'s suspended \<Rightarrow> request" where
  "request_of (OnPost p k) = PostRequest p"
| "request_of (OnGet t k) = GetRequest t"
| "request_of (OnSleep ms k) = Timer ms"

definition in_flight :: "'s \<times> 's suspended list \<Rightarrow> request list" where
  "in_flight w = map request_of (snd w)"

fun suspend :: "('s, unit) task \<Rightarrow> 's suspended list \<Rightarrow> 's \<times> 's suspended list" where
  "suspend (Return a s) waiting = (s, waiting)"
| "suspend (AwaitPost p s k) waiting = (s, waiting @ [OnPost p k])"
| "suspend (AwaitGet t s k) waiting = (s, waiting @ [OnGet t k])"
| "suspend (AwaitSleep ms s k) waiting = (s, waiting @ [OnSleep ms k])"

definition start :: "('s \<Rightarrow> ('s, 'a) task) \<Rightarrow> 's \<times> 's suspended list \<Rightarrow> 's \<times> 's suspended list" where
  "start f w = suspend (abind (f (fst w)) (\<lambda>a s. Return () s)) (snd w)"

datatype outcome = PostDone post_outcome | GetDone get_outcome | TimerFired

text \<open>The \<open>n\<close>-th suspended call resumes on its outcome; an outcome nobody waits for
  changes nothing.\<close>

definition resume :: "nat \<Rightarrow> outcome \<Rightarrow> 's \<times> 's suspended list \<Rightarrow> 's \<times> 's suspended list" where
  "resume n out w =
     (if n < length (snd w) then
        let others = take n (snd w) @ drop (Suc n) (snd w) in
        (case (snd w ! n, out) of
           (OnPost p k, PostDone r) \<Rightarrow> suspend (k r (fst w)) others
         | (OnGet t k, GetDone r) \<Rightarrow> suspend (k r (fst w)) others
         | (OnSleep ms k, TimerFired) \<Rightarrow> suspend (k (fst w)) others
         | other \<Rightarrow> w)
      else w)"

text \<open>
  The events of the WebSocket server: the cron callback, which calls
  \<^verbatim>\<open>fetchAndBroadcastStockData()\<close> and returns; the start-up timer; the routes
  \<^verbatim>\<open>POST /api/auth\<close> and \<^verbatim>\<open>GET /api/stock\<close> (the answer to the HTTP client is not
  modelled; \<^verbatim>\<open>GET /api/latest-stock\<close> only reads); a new socket; a socket closing or
  failing; a socket changing state; the clock; an outcome arriving.
\<close>

datatype ws_event =
    CronTick
  | StartupTimer
  | ApiAuth
  | ApiStock
  | Connection nat
  | Close nat
  | Error nat
  | SocketState nat ready_state
  | Clock nat
  | Outcome nat outcome

definition initial_fetch :: "ws_state \<Rightarrow> (ws_state, unit) task" where
  "initial_fetch s =
     abind (getIDLCAuthToken 5 s) (\<lambda>token s1.
       if truthy token then abind (fetchAndBroadcastStockData True s1) (\<lambda>r s2. Return () s2)
       else Return () s1)"

definition api_stock :: "ws_state \<Rightarrow> (ws_state, stock option list option) task" where
  "api_stock s =
     abind
       (if \<not> truthy (authToken s) then getIDLCAuthToken 5 s else Return (authToken s) s)
       (\<lambda>token s1. getAllStockCompanies (authToken s1) 5 s1)"

fun ws_step :: "ws_event \<Rightarrow> ws_state \<times> ws_state suspended list \<Rightarrow> ws_state \<times> ws_state suspended list" where
  "ws_step CronTick w = start (fetchAndBroadcastStockData False) w"
| "ws_step StartupTimer w = start initial_fetch w"
| "ws_step ApiAuth w = start (getIDLCAuthToken 5) w"
| "ws_step ApiStock w = start api_stock w"
| "ws_step (Connection ws) w =
     (let w1 = (on_connection ws (fst w), snd w)
      in if latestStockMap (fst w) \<noteq> [] then w1
         else start (fetchAndBroadcastStockData True) w1)"
| "ws_step (Close ws) w = (on_close ws (fst w), snd w)"
| "ws_step (Error ws) w = (on_error ws (fst w), snd w)"
| "ws_step (SocketState ws st) w = ((fst w)\<lparr>readyState := (readyState (fst w))(ws := st)\<rparr>, snd w)"
| "ws_step (Clock t) w = (ws_set_now t (fst w), snd w)"
| "ws_step (Outcome n out) w = resume n out w"

definition ws_steps :: "ws_event list \<Rightarrow> ws_state \<times> ws_state suspended list \<Rightarrow> ws_state \<times> ws_state suspended list" where
  "ws_steps evs w = fold ws_step evs w"

text \<open>
  The events of the socket.io server: a call of \<^verbatim>\<open>fetchStockData\<close> (by the start-up
  timer, the route \<^verbatim>\<open>/stocks\<close> or a socket's \<^verbatim>\<open>request-refresh\<close>), a call of
  \<^verbatim>\<open>getAuthToken(true)\<close> (by the route \<^verbatim>\<open>/auth\<close>), the clock, an outcome arriving.
  A connecting socket reads the variables and writes none.
\<close>

datatype sio_event =
    FetchCall
  | AuthCall
  | SioClock nat
  | SioOutcome nat outcome

fun sio_step ::
  "nat \<Rightarrow> sio_event \<Rightarrow> sio_state \<times> sio_state suspended list \<Rightarrow>
   sio_state \<times> sio_state suspended list" where
  "sio_step depth FetchCall w = start (fetchStockData depth) w"
| "sio_step depth AuthCall w = start (getAuthToken True) w"
| "sio_step depth (SioClock t) w = (sio_set_now t (fst w), snd w)"
| "sio_step depth (SioOutcome n out) w = resume n out w"

definition sio_steps ::
  "nat \<Rightarrow> sio_event list \<Rightarrow> sio_state \<times> sio_state suspended list \<Rightarrow>
   sio_state \<times> sio_state suspended list" where
  "sio_steps depth evs w = fold (sio_step depth) evs w"

section \<open>The diff as the specification words it\<close>

text \<open>
  \<open>computeUpdates previous current\<close>: for every record of \<open>current\<close>, in order, include it when
  its key is absent from \<open>previous\<close> or when its price, change or change-percent differs
  from the record of \<open>previous\<close> under that key. \<open>build_map\<close> is the mapping built from
  fetched records alone.
\<close>

definition computeUpdates ::
  "(jsstring \<times> mapped_item) list \<Rightarrow> mapped_item list \<Rightarrow> mapped_item list" where
  "computeUpdates previous current =
     filter (\<lambda>r. case map_of previous (m_trading_code r) of
                    None \<Rightarrow> True
                  | Some p \<Rightarrow> m_last_trading_price p \<noteq> m_last_trading_price r \<or>
                      m_change p \<noteq> m_change r \<or>
                      m_change_percent p \<noteq> m_change_percent r)
       current"

definition build_map ::
  "stock list \<Rightarrow> (jsstring \<times> mapped_item) list \<Rightarrow> (jsstring \<times> mapped_item) list" where
  "build_map items m = fold (\<lambda>item. AList.update (dseCompanyCode item) (mapItem item)) items m"

text \<open>
  The same on upstream records with a key, comparing the price and the change only;
  \<open>lookup\<close> tells the price and the change of what is found under a key, if anything.
  \<open>member_names\<close> are the names under which an object with the prototype
  \<^verbatim>\<open>Object.prototype\<close> finds a member it inherits.
\<close>

definition computeUpdates_two_fields ::
  "(string \<Rightarrow> (jsval \<times> jsval) option) \<Rightarrow> stock list \<Rightarrow> stock list" where
  "computeUpdates_two_fields lookup current =
     filter (\<lambda>r. truthy (stockCode r) \<and>
                 (case lookup (property_name (stockCode r)) of
                    None \<Rightarrow> True
                  | Some (price, chg) \<Rightarrow>
                      price \<noteq> last_trading_price r \<or> chg \<noteq> change r))
       current"

definition member_names :: "string list" where
  "member_names = ''__proto__'' # object_prototype_names"

text \<open>The store after the records \<open>ups\<close> have been assigned under their codes, one after
  the other.\<close>

definition assign_all ::
  "stock list \<Rightarrow> (string \<times> stock) list \<times> stock option \<Rightarrow>
   (string \<times> stock) list \<times> stock option" where
  "assign_all ups st =
     fold (\<lambda>stk (own, proto). set_property own proto (property_name (stockCode stk)) stk) ups st"

section \<open>Predicates of the statements\<close>

text \<open>The variables of the WebSocket server other than the token and the clock, and the
  store and the fetch time of the socket.io server.\<close>

definition ws_frame :: "ws_state \<Rightarrow> ws_state \<Rightarrow> bool" where
  "ws_frame s s1 =
     (latestStockMap s1 = latestStockMap s \<and> outbox s1 = outbox s \<and>
      clients s1 = clients s \<and> readyState s1 = readyState s)"

definition sio_frame :: "sio_state \<Rightarrow> sio_state \<Rightarrow> bool" where
  "sio_frame s s1 =
     (previousStockData s1 = previousStockData s \<and> prototype s1 = prototype s \<and>
      lastFetchTime s1 = lastFetchTime s)"


fun accepted :: "post_outcome \<Rightarrow> bool" where
  "accepted (PostResponse st b) =
     (st = 200 \<and> resultCode b = Some ''200'' \<and>
      (case resultData b of None \<Rightarrow> False | Some t \<Rightarrow> truthy t))"
| "accepted (PostError c) = False"

text \<open>A data reply that carries a body the WebSocket server takes for data (a truthy one),
  and one that the socket.io server takes for data (status 200, body not null).\<close>

fun ws_data :: "get_outcome \<Rightarrow> bool" where
  "ws_data (GetResponse st b) = body_truthy b"
| "ws_data (GetError c status) = False"

fun sio_data :: "get_outcome \<Rightarrow> bool" where
  "sio_data (GetResponse st b) = (st = 200 \<and> stock_array b \<noteq> None)"
| "sio_data (GetError c status) = False"

text \<open>An event that brings such a reply.\<close>

fun ws_data_event :: "ws_event \<Rightarrow> bool" where
  "ws_data_event (Outcome n (GetDone r)) = ws_data r"
| "ws_data_event ev = False"

fun sio_data_event :: "sio_event \<Rightarrow> bool" where
  "sio_data_event (SioOutcome n (GetDone r)) = sio_data r"
| "sio_data_event ev = False"

text \<open>The payloads of the \<^verbatim>\<open>stock-updates\<close> messages among the emitted ones.\<close>

fun stock_updates :: "sio_message list \<Rightarrow> stock list list" where
  "stock_updates [] = []"
| "stock_updates (StockUpdates ups # ms) = ups # stock_updates ms"
| "stock_updates (m # ms) = stock_updates ms"

text \<open>A record is nowhere in the store and in no emitted \<^verbatim>\<open>stock-updates\<close> message.\<close>

definition unseen :: "stock \<Rightarrow> sio_state \<Rightarrow> bool" where
  "unseen stk s =
     (stk \<notin> snd ` set (previousStockData s) \<and>
      (\<forall>ups \<in> set (stock_updates (emitted s)). stk \<notin> set ups))"

text \<open>A call wrote neither the store nor the fetch time and emitted no
  \<^verbatim>\<open>stock-updates\<close> message.\<close>

definition sio_quiet :: "sio_state \<Rightarrow> sio_state \<Rightarrow> bool" where
  "sio_quiet s s1 =
     (sio_frame s s1 \<and> stock_updates (emitted s1) = stock_updates (emitted s))"



subsection \<open>What a handler may do to the variables\<close>

text \<open>
  A handler runs from a call or from the arrival of an outcome until it returns or awaits.
  \<open>obeys T Q m g s0\<close>: the task \<open>m\<close>, running in a handler that began in the state \<open>s0\<close> on
  the trigger \<open>g\<close>, either awaits in a state \<open>s\<close> with \<open>T g s0 s\<close>, and does so again whenever
  it resumes, or returns some \<open>a\<close> in a state \<open>s\<close> with \<open>Q a g s0 s\<close>.
\<close>

datatype trigger = Called | Answered outcome

primrec obeys ::
  "(trigger \<Rightarrow> 's \<Rightarrow> 's \<Rightarrow> bool) \<Rightarrow> ('a \<Rightarrow> trigger \<Rightarrow> 's \<Rightarrow> 's \<Rightarrow> bool) \<Rightarrow>
   ('s, 'a) task \<Rightarrow> trigger \<Rightarrow> 's \<Rightarrow> bool" where
  "obeys T Q (Return a s) g s0 = Q a g s0 s"
| "obeys T Q (AwaitPost p s k) g s0 =
     (T g s0 s \<and> (\<forall>r s1. obeys T Q (k r s1) (Answered (PostDone r)) s1))"
| "obeys T Q (AwaitGet t s k) g s0 =
     (T g s0 s \<and> (\<forall>r s1. obeys T Q (k r s1) (Answered (GetDone r)) s1))"
| "obeys T Q (AwaitSleep ms s k) g s0 =
     (T g s0 s \<and> (\<forall>s1. obeys T Q (k s1) (Answered TimerFired) s1))"

fun behaved :: "(trigger \<Rightarrow> 's \<Rightarrow> 's \<Rightarrow> bool) \<Rightarrow> 's suspended \<Rightarrow> bool" where
  "behaved T (OnPost p k) =
     (\<forall>r s1. obeys T (\<lambda>a. T) (k r s1) (Answered (PostDone r)) s1)"
| "behaved T (OnGet t k) =
     (\<forall>r s1. obeys T (\<lambda>a. T) (k r s1) (Answered (GetDone r)) s1)"
| "behaved T (OnSleep ms k) =
     (\<forall>s1. obeys T (\<lambda>a. T) (k s1) (Answered TimerFired) s1)"

text \<open>The trigger is an outcome that the environment of a run gives.\<close>

definition answer_in :: "env \<Rightarrow> trigger \<Rightarrow> bool" where
  "answer_in e g =
     (g = Answered TimerFired \<or>
      (\<exists>j. g = Answered (PostDone (post_reply e j)) \<or> g = Answered (GetDone (get_reply e j))))"

text \<open>
  The handlers of the WebSocket server. A handler of an async function writes the token
  only (\<open>ws_quiet\<close>), unless it is the one in which \<^verbatim>\<open>getAllStockCompanies\<close> returns an
  array: that one began on a data response with a truthy body and has written nothing
  when the array is returned (\<open>ws_fetched\<close>), and then \<open>publish\<close> runs on the array
  (\<open>ws_cycle_end\<close>, \<open>ws_effect\<close>).
\<close>

definition ws_quiet :: "ws_state \<Rightarrow> ws_state \<Rightarrow> bool" where
  "ws_quiet s0 s = (s = s0\<lparr>authToken := authToken s\<rparr>)"

definition ws_fetched :: "stock option list option \<Rightarrow> trigger \<Rightarrow> ws_state \<Rightarrow> ws_state \<Rightarrow> bool" where
  "ws_fetched res g s0 s =
     (case res of
        None \<Rightarrow> ws_quiet s0 s
      | Some items \<Rightarrow>
          s = s0 \<and> (\<exists>st b. g = Answered (GetDone (GetResponse st b)) \<and> body_truthy b \<and>
                      items = as_array b))"

definition ws_cycle_end :: "bool \<Rightarrow> cycle_result \<Rightarrow> trigger \<Rightarrow> ws_state \<Rightarrow> ws_state \<Rightarrow> bool" where
  "ws_cycle_end isInitial r g s0 s =
     ((ws_quiet s0 s \<and> (r = NoToken \<or> r = NoData)) \<or>
      (\<exists>st b. g = Answered (GetDone (GetResponse st b)) \<and> body_truthy b \<and>
         publish isInitial (as_array b) s0 = (r, s)))"

definition ws_effect :: "trigger \<Rightarrow> ws_state \<Rightarrow> ws_state \<Rightarrow> bool" where
  "ws_effect g s0 s =
     (ws_quiet s0 s \<or>
      (\<exists>st b isInitial. g = Answered (GetDone (GetResponse st b)) \<and> body_truthy b \<and>
         s = snd (publish isInitial (as_array b) s0)))"

text \<open>What an event does to the variables of the WebSocket server.\<close>

fun ws_changes :: "ws_event \<Rightarrow> ws_state \<Rightarrow> ws_state \<Rightarrow> bool" where
  "ws_changes (Connection c) s s1 = ws_quiet (on_connection c s) s1"
| "ws_changes (Close c) s s1 = (s1 = on_close c s)"
| "ws_changes (Error c) s s1 = (s1 = on_error c s)"
| "ws_changes (SocketState c st) s s1 = (s1 = s\<lparr>readyState := (readyState s)(c := st)\<rparr>)"
| "ws_changes (Clock t) s s1 = (s1 = ws_set_now t s)"
| "ws_changes (Outcome n out) s s1 = ws_effect (Answered out) s s1"
| "ws_changes ev s s1 = ws_quiet s s1"

text \<open>
  The handlers of the socket.io server. A handler of an async function is quiet, unless it
  is the one in which \<^verbatim>\<open>fetchStockData\<close> returns after a response of status 200: that
  one is \<open>store_updates\<close> on the body of the response.
\<close>

definition sio_fetch_end :: "fetch_result \<Rightarrow> trigger \<Rightarrow> sio_state \<Rightarrow> sio_state \<Rightarrow> bool" where
  "sio_fetch_end r g s0 s =
     ((sio_quiet s0 s \<and> (\<forall>xs. r \<noteq> Data xs)) \<or>
      (\<exists>b. g = Answered (GetDone (GetResponse 200 b)) \<and> store_updates b s0 = (r, s)))"

definition sio_effect :: "trigger \<Rightarrow> sio_state \<Rightarrow> sio_state \<Rightarrow> bool" where
  "sio_effect g s0 s =
     (sio_quiet s0 s \<or>
      (\<exists>b. g = Answered (GetDone (GetResponse 200 b)) \<and> s = snd (store_updates b s0)))"

text \<open>What an event does to the variables of the socket.io server.\<close>

fun sio_changes :: "sio_event \<Rightarrow> sio_state \<Rightarrow> sio_state \<Rightarrow> bool" where
  "sio_changes (SioClock t) s s1 = (s1 = sio_set_now t s)"
| "sio_changes (SioOutcome n out) s s1 = sio_effect (Answered out) s s1"
| "sio_changes ev s s1 = sio_quiet s s1"

text \<open>The registry after an event.\<close>

fun registry_after :: "ws_event \<Rightarrow> nat list \<Rightarrow> nat list" where
  "registry_after (Connection c) cs = (if c \<in> set cs then cs else cs @ [c])"
| "registry_after (Close c) cs = removeAll c cs"
| "registry_after (Error c) cs = removeAll c cs"
| "registry_after ev cs = cs"

section \<open>Sample inputs\<close>

definition env_timeouts :: env where
  "env_timeouts = \<lparr>post_reply = (\<lambda>i. PostError ETIMEDOUT),
     get_reply = (\<lambda>i. GetError ETIMEDOUT None), clock = (\<lambda>i. i)\<rparr>"

definition ws_init :: ws_state where
  "ws_init = \<lparr>authToken = SNull, latestStockMap = [], clients = [], readyState = (\<lambda>c. CLOSED),
     outbox = (\<lambda>c. []), now = 0\<rparr>"

definition stock_AAA :: stock where
  "stock_AAA = \<lparr>dseCompanyCode = SString ''AAA'', trading_code = SUndefined, ycp = JNum 10,
     mktValueChange = JNum 0, mktValChangePercentage = JNum 0,
     last_trading_price = JNum 10, change = JNum 0, other_fields = []\<rparr>"

definition stock_BBB :: stock where
  "stock_BBB = \<lparr>dseCompanyCode = SString ''BBB'', trading_code = SUndefined, ycp = JNum 5,
     mktValueChange = JNum (- 1), mktValChangePercentage = JNum (- 20),
     last_trading_price = JNum 5, change = JNum (- 1), other_fields = []\<rparr>"

definition stock_AAA_percent :: stock where
  "stock_AAA_percent = stock_AAA\<lparr>mktValChangePercentage := JNum 1\<rparr>"

definition accept_body :: auth_body where
  "accept_body = \<lparr>resultCode = Some ''200'', resultData = Some (SString ''token''),
     altToken = SUndefined\<rparr>"



definition sio_init :: sio_state where
  "sio_init = \<lparr>sio_authToken = SNull, previousStockData = [], prototype = None,
     lastFetchTime = None, tokenExpiryTime = None, emitted = [], sio_now = 0\<rparr>"

definition env_timeouts_then_data :: env where
  "env_timeouts_then_data =
     \<lparr>post_reply = (\<lambda>i. PostError ETIMEDOUT),
      get_reply = (\<lambda>i. GetResponse 200 BNull),
      clock = (\<lambda>i. i)\<rparr>"

definition ws_with_AAA :: ws_state where
  "ws_with_AAA = \<lparr>authToken = SString ''token'',
     latestStockMap = [(SString ''AAA'', mapItem stock_AAA)],
     clients = [1, 2], readyState = (\<lambda>c. if c = 1 then CLOSED else OPEN),
     outbox = (\<lambda>c. []), now = 0\<rparr>"

definition sio_with_AAA :: sio_state where
  "sio_with_AAA = \<lparr>sio_authToken = SString ''token'', previousStockData = [(''AAA'', stock_AAA)],
     prototype = None, lastFetchTime = Some 1, tokenExpiryTime = Some 1000, emitted = [],
     sio_now = 2\<rparr>"

definition stock_keyless :: stock where
  "stock_keyless = \<lparr>dseCompanyCode = SString [], trading_code = SUndefined, ycp = JNum 7,
     mktValueChange = JNum 1, mktValChangePercentage = JNum 1,
     last_trading_price = JNum 7, change = JNum 1, other_fields = []\<rparr>"

definition env_keyless :: env where
  "env_keyless =
     \<lparr>post_reply = (\<lambda>i. PostError ETIMEDOUT),
      get_reply = (\<lambda>i. GetResponse 200 (BArray [Some stock_keyless, Some stock_BBB])),
      clock = (\<lambda>i. i)\<rparr>"

definition stock_CCC :: stock where
  "stock_CCC = \<lparr>dseCompanyCode = SUndefined, trading_code = SString ''CCC'', ycp = JNum 3,
     mktValueChange = JNum 2, mktValChangePercentage = JNum 1,
     last_trading_price = JNum 3, change = JNum 2, other_fields = []\<rparr>"

definition stock_constructor :: stock where
  "stock_constructor = \<lparr>dseCompanyCode = SString ''constructor'', trading_code = SUndefined,
     ycp = JNum 4, mktValueChange = JNum 0, mktValChangePercentage = JNum 0,
     last_trading_price = JUndefined, change = JUndefined, other_fields = []\<rparr>"

definition env_null_element :: env where
  "env_null_element =
     \<lparr>post_reply = (\<lambda>i. PostError ETIMEDOUT),
      get_reply = (\<lambda>i. GetResponse 200 (BArray [Some stock_BBB, None, Some stock_CCC])),
      clock = (\<lambda>i. i)\<rparr>"

definition env_empty_array :: env where
  "env_empty_array =
     \<lparr>post_reply = (\<lambda>i. PostError ETIMEDOUT),
      get_reply = (\<lambda>i. GetResponse 200 (BArray [])),
      clock = (\<lambda>i. 10 + i)\<rparr>"

definition sample_message :: ws_message where
  "sample_message = \<lparr>msg_type = ''stock_update'', msg_data = [mapItem stock_BBB],
     msg_timestamp = 0\<rparr>"

section \<open>Properties of the retry loops\<close>


lemma sleeps_simps2 [simp]: "sleeps (Posted p r # tr) = sleeps tr" "sleeps (Fetched t g # tr) = sleeps tr"
  by simp_all

lemma posts_simps [simp]:
  "posts [] = 0" "posts (Posted p r # tr) = Suc (posts tr)"
  "posts (Fetched t g # tr) = posts tr" "posts (Slept ms # tr) = posts tr"
  by (simp_all add: posts_def)

lemma fetches_simps [simp]:
  "fetches [] = 0" "fetches (Posted p r # tr) = fetches tr"
  "fetches (Fetched t g # tr) = Suc (fetches tr)" "fetches (Slept ms # tr) = fetches tr"
  by (simp_all add: fetches_def)









section \<open>The diff\<close>

lemma mapItem_code: "m_trading_code (mapItem item) = dseCompanyCode item"
  by (simp add: mapItem_def)

lemma computeUpdates_Cons:
  "computeUpdates previous (r # rs) = computeUpdates previous [r] @ computeUpdates previous rs"
  by (simp add: computeUpdates_def)

lemma forEach_body_eq:
  "forEach_body isInitial latest item (nm, ups) =
     (AList.update (dseCompanyCode item) (mapItem item) nm,
      ups @ computeUpdates (if isInitial then [] else latest) [mapItem item])"
  by (cases "map_of latest (dseCompanyCode item)")
     (simp_all add: forEach_body_def Let_def computeUpdates_def mapItem_code)

lemma forEach_stock_objects:
  "forEach_stock isInitial latest (map Some items) (nm, ups) =
     Some (build_map items nm,
           ups @ computeUpdates (if isInitial then [] else latest) (map mapItem items))"
proof (induction items arbitrary: nm ups)
  case Nil
  show ?case by (simp add: computeUpdates_def build_map_def)
next
  case (Cons item items)
  have "computeUpdates (if isInitial then [] else latest) (map mapItem (item # items)) =
        computeUpdates (if isInitial then [] else latest) [mapItem item] @
        computeUpdates (if isInitial then [] else latest) (map mapItem items)"
    using computeUpdates_Cons[of _ "mapItem item" "map mapItem items"] by simp
  then show ?case
    by (simp add: Cons.IH forEach_body_eq build_map_def del: append_assoc)
qed

subsection \<open>The own properties of the store\<close>

lemma map_of_insert_index:
  "map_of own k = None \<Longrightarrow> map_of (insert_index n k v own) = (map_of own)(k \<mapsto> v)"
proof (induction own)
  case Nil
  show ?case by simp
next
  case (Cons kv own)
  obtain k1 v1 where kv: "kv = (k1, v1)" by (cases kv)
  from Cons.prems kv have ne: "k1 \<noteq> k" and n: "map_of own k = None"
    by (auto split: if_splits)
  show ?case
  proof (cases "array_index k1")
    case None
    with kv show ?thesis by (auto simp add: fun_eq_iff)
  next
    case (Some n1)
    with kv Cons.IH[OF n] ne show ?thesis by (auto simp add: fun_eq_iff)
  qed
qed

lemma map_of_own_set: "map_of (own_set k v own) = (map_of own)(k \<mapsto> v)"
  by (auto simp add: own_set_def map_of_insert_index update_conv' fun_eq_iff map_add_def
      split: option.splits)

lemma get_property_own_set_other:
  "k1 \<noteq> k \<Longrightarrow> get_property (own_set k v own) proto k1 = get_property own proto k1"
  by (simp add: get_property_def map_of_own_set)

lemma process_stock_keyless:
  "\<not> truthy (stockCode stk) \<Longrightarrow> process_stock stk acc = acc"
  by (cases acc) (simp add: process_stock_def)

lemma process_stock_keyed:
  "truthy (stockCode stk) \<Longrightarrow> process_stock stk (own, proto, ups) =
     (if (case get_property own proto (property_name (stockCode stk)) of
            None \<Rightarrow> True
          | Some (price, chg) \<Rightarrow> price \<noteq> last_trading_price stk \<or> chg \<noteq> change stk)
      then (case set_property own proto (property_name (stockCode stk)) stk of
              (own1, proto1) \<Rightarrow> (own1, proto1, ups @ [stk]))
      else (own, proto, ups))"
  by (simp add: process_stock_def Let_def)

lemma truthy_name: "truthy c \<Longrightarrow> c = SString (property_name c)"
  by (cases c) simp_all

lemma two_fields_other:
  "\<forall>r \<in> set items. truthy (stockCode r) \<longrightarrow> property_name (stockCode r) \<noteq> k \<Longrightarrow>
   computeUpdates_two_fields (get_property (own_set k v own) proto) items =
     computeUpdates_two_fields (get_property own proto) items"
  unfolding computeUpdates_two_fields_def
  by (rule filter_cong) (auto simp add: get_property_own_set_other)

lemma process_updates_objects:
  "distinct (map stockCode (filter (\<lambda>r. truthy (stockCode r)) items)) \<Longrightarrow>
   \<forall>r \<in> set items. truthy (stockCode r) \<longrightarrow> property_name (stockCode r) \<noteq> ''__proto__'' \<Longrightarrow>
   \<exists>own1. process_updates (map Some items) (own, proto, ups) =
     (True, own1, proto, ups @ computeUpdates_two_fields (get_property own proto) items)"
proof (induction items arbitrary: own ups)
  case Nil
  show ?case by (simp add: computeUpdates_two_fields_def)
next
  case (Cons stk items)
  from Cons.prems(2)
  have np: "\<forall>r \<in> set items. truthy (stockCode r) \<longrightarrow> property_name (stockCode r) \<noteq> ''__proto__''"
    by simp
  show ?case
  proof (cases "truthy (stockCode stk)")
    case False
    with Cons.prems(1) have d: "distinct (map stockCode (filter (\<lambda>r. truthy (stockCode r)) items))"
      by simp
    from Cons.IH[OF d np, of own ups] False show ?thesis
      by (simp add: process_stock_keyless computeUpdates_two_fields_def)
  next
    case True
    let ?k = "property_name (stockCode stk)"
    from Cons.prems(1) True
    have dd: "distinct (stockCode stk # map stockCode (filter (\<lambda>r. truthy (stockCode r)) items))"
      by simp
    then have d: "distinct (map stockCode (filter (\<lambda>r. truthy (stockCode r)) items))"
      by simp
    have nk: "\<forall>r \<in> set items. truthy (stockCode r) \<longrightarrow> property_name (stockCode r) \<noteq> ?k"
    proof (intro ballI impI notI)
      fix r assume r: "r \<in> set items" and t: "truthy (stockCode r)"
        and e: "property_name (stockCode r) = ?k"
      from truthy_name[OF t] truthy_name[OF True] e have "stockCode r = stockCode stk" by simp
      moreover from r t have "stockCode r \<in> set (map stockCode (filter (\<lambda>r. truthy (stockCode r)) items))"
        by simp
      moreover from dd
      have "stockCode stk \<notin> set (map stockCode (filter (\<lambda>r. truthy (stockCode r)) items))"
        by (simp only: distinct.simps) simp
      ultimately show False by simp
    qed
    from Cons.prems(2) True have kp: "?k \<noteq> ''__proto__''" by simp
    then have sp: "set_property own proto ?k stk = (own_set ?k stk own, proto)"
      by (simp add: set_property_def)
    show ?thesis
    proof (cases "case get_property own proto ?k of
            None \<Rightarrow> True
          | Some (price, chg) \<Rightarrow> price \<noteq> last_trading_price stk \<or> chg \<noteq> change stk")
      case c: True
      from Cons.IH[OF d np, of "own_set ?k stk own" "ups @ [stk]"]
      show ?thesis using True c two_fields_other[OF nk, of stk own proto]
        by (simp add: process_stock_keyed sp) (simp add: computeUpdates_two_fields_def)
    next
      case c: False
      from Cons.IH[OF d np, of own ups]
      show ?thesis using True c
        by (simp add: process_stock_keyed) (simp add: computeUpdates_two_fields_def)
    qed
  qed
qed

text \<open>
  C1, as stated, fails on the socket.io server: a record whose change-percent differs from
  the stored record of its key, the price and the change being equal, is not returned.
\<close>

theorem diff_two_fields_counterexample:
  "mktValChangePercentage stock_AAA_percent \<noteq> mktValChangePercentage stock_AAA \<and>
   process_updates [Some stock_AAA_percent] ([(''AAA'', stock_AAA)], None, []) =
     (True, [(''AAA'', stock_AAA)], None, [])"
  by (simp add: stock_AAA_percent_def stock_AAA_def process_stock_def stockCode_def
      get_property_def)

text \<open>
  C1, amended. In the WebSocket server the updates of a cycle are the records of the fetch
  whose key is absent from the stored mapping or whose price, change or change-percent
  differs from the stored record, in the order of the fetch; an initial cycle takes the
  stored mapping as empty and returns every record. In the socket.io server, for a fetch
  whose codes are distinct and none of them \<^verbatim>\<open>__proto__\<close>, the scan ends and the updates
  are the records with a code under which the store object answers nothing, or something
  whose price or change differs from the record's. The object answers with the record
  stored under the code; for a code that is not stored it answers with what it inherits:
  while its prototype is \<^verbatim>\<open>Object.prototype\<close>, a member of that (with an undefined
  price and change) for the names of its members, and nothing for any other code.
\<close>

theorem diff_of_both_servers:
  "map_option snd (forEach_stock isInitial latest (map Some items) ([], [])) =
     Some (computeUpdates (if isInitial then [] else latest) (map mapItem items)) \<and>
   (distinct (map stockCode (filter (\<lambda>r. truthy (stockCode r)) stocks)) \<longrightarrow>
    (\<forall>r \<in> set stocks. truthy (stockCode r) \<longrightarrow> property_name (stockCode r) \<noteq> ''__proto__'') \<longrightarrow>
      fst (process_updates (map Some stocks) (own, proto, [])) \<and>
      snd (snd (snd (process_updates (map Some stocks) (own, proto, [])))) =
        computeUpdates_two_fields (get_property own proto) stocks) \<and>
   get_property own None k =
     (case map_of own k of
        Some p \<Rightarrow> Some (last_trading_price p, change p)
      | None \<Rightarrow> if k \<in> set member_names then Some (JUndefined, JUndefined) else None)"
proof -
  have A: "fst (process_updates (map Some stocks) (own, proto, [])) \<and>
      snd (snd (snd (process_updates (map Some stocks) (own, proto, [])))) =
        computeUpdates_two_fields (get_property own proto) stocks"
    if "distinct (map stockCode (filter (\<lambda>r. truthy (stockCode r)) stocks))"
      and "\<forall>r \<in> set stocks. truthy (stockCode r) \<longrightarrow> property_name (stockCode r) \<noteq> ''__proto__''"
    using process_updates_objects[OF that, of own proto "[]"] by auto
  have B: "get_property own None k =
     (case map_of own k of
        Some p \<Rightarrow> Some (last_trading_price p, change p)
      | None \<Rightarrow> if k \<in> set member_names then Some (JUndefined, JUndefined) else None)"
    by (simp add: get_property_def inherited_def member_names_def split: option.splits)
  from A B show ?thesis by (simp add: forEach_stock_objects)
qed

theorem diff_of_both_servers_witness:
  "distinct (map stockCode
     (filter (\<lambda>r. truthy (stockCode r)) [stock_AAA, stock_BBB, stock_constructor])) \<and>
   snd (snd (snd (process_updates (map Some [stock_AAA, stock_BBB, stock_constructor])
       ([(''AAA'', stock_AAA)], None, [])))) = [stock_BBB] \<and>
   get_property [(''AAA'', stock_AAA)] None ''constructor'' = Some (JUndefined, JUndefined) \<and>
   get_property [(''AAA'', stock_AAA)] None ''BBB'' = None \<and>
   map_option snd (forEach_stock False [(SString ''AAA'', mapItem stock_AAA)]
       (map Some [stock_AAA, stock_BBB]) ([], [])) = Some [mapItem stock_BBB] \<and>
   m_indicator (mapItem stock_BBB) = ''Down''"
proof -
  let ?stocks = "[stock_AAA, stock_BBB, stock_constructor]"
  have d: "distinct (map stockCode (filter (\<lambda>r. truthy (stockCode r)) ?stocks))"
    by (simp add: stockCode_def stock_AAA_def stock_BBB_def stock_constructor_def)
  have np: "\<forall>r \<in> set ?stocks. truthy (stockCode r) \<longrightarrow>
      property_name (stockCode r) \<noteq> ''__proto__''"
    by (simp add: stockCode_def stock_AAA_def stock_BBB_def stock_constructor_def)
  have g1: "get_property [(''AAA'', stock_AAA)] None ''constructor'' = Some (JUndefined, JUndefined)"
    by (simp add: get_property_def inherited_def object_prototype_names_def)
  have g2: "get_property [(''AAA'', stock_AAA)] None ''BBB'' = None"
    by (simp add: get_property_def inherited_def object_prototype_names_def)
  have c1: "computeUpdates_two_fields (get_property [(''AAA'', stock_AAA)] None) ?stocks =
      [stock_BBB]"
    by (simp add: computeUpdates_two_fields_def stockCode_def stock_AAA_def stock_BBB_def
        stock_constructor_def get_property_def inherited_def object_prototype_names_def)
  have c2: "computeUpdates (if False then [] else [(SString ''AAA'', mapItem stock_AAA)])
      (map mapItem [stock_AAA, stock_BBB]) = [mapItem stock_BBB]"
    by (simp add: computeUpdates_def mapItem_def stock_AAA_def stock_BBB_def)
  have c3: "m_indicator (mapItem stock_BBB) = ''Down''"
    by (simp add: mapItem_def stock_BBB_def)
  note th = diff_of_both_servers[of False "[(SString ''AAA'', mapItem stock_AAA)]"
      "[stock_AAA, stock_BBB]" ?stocks "[(''AAA'', stock_AAA)]" None]
  from th have A: "map_option snd (forEach_stock False [(SString ''AAA'', mapItem stock_AAA)]
       (map Some [stock_AAA, stock_BBB]) ([], [])) = Some [mapItem stock_BBB]"
    unfolding c2 by (rule conjunct1)
  from th d np have B: "snd (snd (snd (process_updates (map Some ?stocks)
       ([(''AAA'', stock_AAA)], None, [])))) = [stock_BBB]"
    unfolding c1 by blast
  from d A B c3 g1 g2 show ?thesis by blast
qed


section \<open>Sequential composition\<close>

lemma run_abind:
  "run (abind m f) e sn i =
     (case run m e sn i of
        (a, s1, tr1) \<Rightarrow>
          (case run (f a s1) e sn (i + length tr1) of
             (b, s2, tr2) \<Rightarrow> (b, s2, tr1 @ tr2)))"
proof (induction m arbitrary: i)
  case (Return a s)
  show ?case by (simp split: prod.splits)
next
  case (AwaitPost p s k)
  note IH = AwaitPost.IH[OF rangeI rangeI]
  show ?case by (simp add: IH split: prod.splits)
next
  case (AwaitGet t s k)
  note IH = AwaitGet.IH[OF rangeI rangeI]
  show ?case by (simp add: IH split: prod.splits)
next
  case (AwaitSleep ms s k)
  note IH = AwaitSleep.IH[OF rangeI]
  show ?case by (simp add: IH split: prod.splits)
qed

lemma ws_frame_refl [simp]: "ws_frame s s"
  by (simp add: ws_frame_def)

lemma ws_frame_now [simp]: "ws_frame (ws_set_now t s) s1 = ws_frame s s1"
  by (simp add: ws_frame_def ws_set_now_def)

lemma ws_frame_token [simp]: "ws_frame s (s1\<lparr>authToken := t\<rparr>) = ws_frame s s1"
  by (simp add: ws_frame_def)

lemma ws_frame_now2 [simp]: "ws_frame s (ws_set_now t s1) = ws_frame s s1"
  by (simp add: ws_frame_def ws_set_now_def)




lemma posts_append [simp]: "posts (tr1 @ tr2) = posts tr1 + posts tr2"
  by (simp add: posts_def)

lemma fetches_append [simp]: "fetches (tr1 @ tr2) = fetches tr1 + fetches tr2"
  by (simp add: fetches_def)







section \<open>The socket.io server's calls\<close>

lemma sio_frame_refl [simp]: "sio_frame s s"
  by (simp add: sio_frame_def)

lemma sio_frame_trans: "sio_frame s s1 \<Longrightarrow> sio_frame s1 s2 \<Longrightarrow> sio_frame s s2"
  by (simp add: sio_frame_def)

lemma sio_frame_simps [simp]:
  "sio_frame (sio_set_now t s) s1 = sio_frame s s1"
  "sio_frame s (sio_set_now t s1) = sio_frame s s1"
  "sio_frame s (io_emit m s1) = sio_frame s s1"
  "sio_frame s (s1\<lparr>sio_authToken := tok\<rparr>) = sio_frame s s1"
  "sio_frame (s\<lparr>sio_authToken := tok\<rparr>) s1 = sio_frame s s1"
  "sio_frame s (s1\<lparr>tokenExpiryTime := ex\<rparr>) = sio_frame s s1"
  by (simp_all add: sio_frame_def sio_set_now_def io_emit_def)

lemma try_payloads_facts:
  "run (try_payloads ps lastError s) e sio_set_now i = (t, s1, tr) \<Longrightarrow>
     sio_frame s s1 \<and> fetches tr = 0 \<and> posts tr \<le> length ps"
proof (induction ps arbitrary: lastError s i t s1 tr)
  case Nil
  then show ?case by auto
next
  case (Cons p ps)
  from Cons.prems show ?case
    by (auto split: post_outcome.splits if_splits prod.splits dest!: Cons.IH)
qed

lemma getAuthToken_facts:
  assumes "run (getAuthToken forceRefresh s) e sio_set_now i = (t, s1, tr)"
  shows "sio_frame s s1" and "fetches tr = 0" and "posts tr \<le> 4"
  using assms try_payloads_facts[of payloadFormats None s e i t s1 tr]
  by (auto simp add: getAuthToken_def payloadFormats_def split: if_splits)

lemma accepted_probe: "accepted (PostResponse st b) \<Longrightarrow> st = 200 \<and> truthy (probe_token b)"
  by (auto simp add: probe_token_def split: option.splits)

lemma getAuthToken_accepted:
  assumes acc: "\<forall>j. accepted (post_reply e j)"
    and R: "run (getAuthToken forceRefresh s) e sio_set_now i = (t, s1, tr)"
  shows "truthy t"
proof -
  from acc have "accepted (post_reply e i)" by simp
  then obtain st b where P: "post_reply e i = PostResponse st b" and "accepted (PostResponse st b)"
    by (cases "post_reply e i") simp_all
  with accepted_probe have "st = 200" "truthy (probe_token b)" by blast+
  with R P show ?thesis
    by (auto simp add: getAuthToken_def payloadFormats_def split: if_splits)
qed



section \<open>A 401 from the data endpoint\<close>







section \<open>Handlers\<close>

lemma obeys_weaken:
  "obeys T Q m g s0 \<Longrightarrow> (\<And>g s0 s. T g s0 s \<Longrightarrow> T' g s0 s) \<Longrightarrow>
   (\<And>a g s0 s. Q a g s0 s \<Longrightarrow> Q' a g s0 s) \<Longrightarrow> obeys T' Q' m g s0"
proof (induction m arbitrary: g s0)
  case (Return a s)
  then show ?case by simp
next
  case (AwaitPost p s k)
  note IH = AwaitPost.IH[OF rangeI rangeI]
  from AwaitPost.prems show ?case by (auto intro: IH)
next
  case (AwaitGet t s k)
  note IH = AwaitGet.IH[OF rangeI rangeI]
  from AwaitGet.prems show ?case by (auto intro: IH)
next
  case (AwaitSleep ms s k)
  note IH = AwaitSleep.IH[OF rangeI]
  from AwaitSleep.prems show ?case by (auto intro: IH)
qed

lemma obeys_abind:
  "obeys T Q m g s0 \<Longrightarrow> (\<And>a g s0 s. Q a g s0 s \<Longrightarrow> obeys T Q' (f a s) g s0) \<Longrightarrow>
   obeys T Q' (abind m f) g s0"
proof (induction m arbitrary: g s0)
  case (Return a s)
  then show ?case by simp
next
  case (AwaitPost p s k)
  note IH = AwaitPost.IH[OF rangeI rangeI]
  from AwaitPost.prems show ?case by (auto intro: IH)
next
  case (AwaitGet t s k)
  note IH = AwaitGet.IH[OF rangeI rangeI]
  from AwaitGet.prems show ?case by (auto intro: IH)
next
  case (AwaitSleep ms s k)
  note IH = AwaitSleep.IH[OF rangeI]
  from AwaitSleep.prems show ?case by (auto intro: IH)
qed

text \<open>A run of a task alone: an invariant of the awaits holds of the state in which the
  last handler of the run began.\<close>

lemma run_obeys:
  assumes "obeys T Q m g s0" and "I s0"
    and step: "\<And>g s0 s. T g s0 s \<Longrightarrow> I s0 \<Longrightarrow> I s"
    and now: "\<And>t s. I s \<Longrightarrow> I (set_now t s)"
    and "run m e set_now i = (r, s1, tr)"
  shows "\<exists>g1 sb. I sb \<and> Q r g1 sb s1 \<and> (g1 = g \<or> answer_in e g1)"
  using assms(1,2,5)
proof (induction m arbitrary: g s0 i r s1 tr)
  case (Return a s)
  then show ?case by auto
next
  case (AwaitPost p s k)
  let ?s = "set_now (clock e i) s"
  from AwaitPost.prems(1) have T: "T g s0 s"
    and O: "obeys T Q (k (post_reply e i) ?s) (Answered (PostDone (post_reply e i))) ?s"
    by simp_all
  from step[OF T AwaitPost.prems(2)] have I: "I ?s" by (rule now)
  obtain r2 s2 tr2 where R: "run (k (post_reply e i) ?s) e set_now (Suc i) = (r2, s2, tr2)"
    by (metis prod_cases3)
  from AwaitPost.prems(3) R have e: "r = r2" "s1 = s2" by simp_all
  from AwaitPost.IH[OF rangeI rangeI O I R] e show ?case
    by (auto simp add: answer_in_def)
next
  case (AwaitGet t s k)
  let ?s = "set_now (clock e i) s"
  from AwaitGet.prems(1) have T: "T g s0 s"
    and O: "obeys T Q (k (get_reply e i) ?s) (Answered (GetDone (get_reply e i))) ?s"
    by simp_all
  from step[OF T AwaitGet.prems(2)] have I: "I ?s" by (rule now)
  obtain r2 s2 tr2 where R: "run (k (get_reply e i) ?s) e set_now (Suc i) = (r2, s2, tr2)"
    by (metis prod_cases3)
  from AwaitGet.prems(3) R have e: "r = r2" "s1 = s2" by simp_all
  from AwaitGet.IH[OF rangeI rangeI O I R] e show ?case
    by (auto simp add: answer_in_def)
next
  case (AwaitSleep ms s k)
  let ?s = "set_now (clock e i) s"
  from AwaitSleep.prems(1) have T: "T g s0 s"
    and O: "obeys T Q (k ?s) (Answered TimerFired) ?s"
    by simp_all
  from step[OF T AwaitSleep.prems(2)] have I: "I ?s" by (rule now)
  obtain r2 s2 tr2 where R: "run (k ?s) e set_now (Suc i) = (r2, s2, tr2)"
    by (metis prod_cases3)
  from AwaitSleep.prems(3) R have e: "r = r2" "s1 = s2" by simp_all
  from AwaitSleep.IH[OF rangeI O I R] e show ?case
    by (auto simp add: answer_in_def)
qed

subsection \<open>The event loop\<close>

lemma suspend_obeys:
  "obeys T (\<lambda>a. T) m g s0 \<Longrightarrow> list_all (behaved T) waiting \<Longrightarrow>
   T g s0 (fst (suspend m waiting)) \<and> list_all (behaved T) (snd (suspend m waiting))"
  by (cases m) simp_all

lemma start_obeys:
  assumes "obeys T Q (f (fst w)) Called (fst w)"
    and "\<And>a g s0 s. Q a g s0 s \<Longrightarrow> T g s0 s"
    and "list_all (behaved T) (snd w)"
  shows "T Called (fst w) (fst (start f w)) \<and> list_all (behaved T) (snd (start f w))"
proof -
  have "obeys T (\<lambda>a. T) (abind (f (fst w)) (\<lambda>a s. Return () s)) Called (fst w)"
    by (rule obeys_abind[OF assms(1)]) (simp add: assms(2))
  from suspend_obeys[OF this assms(3)] show ?thesis by (simp add: start_def)
qed

lemma list_all_others:
  "list_all P xs \<Longrightarrow> list_all P (take n xs @ drop (Suc n) xs)"
  by (auto simp add: list_all_iff dest: in_set_takeD in_set_dropD)

lemma resume_obeys:
  assumes "list_all (behaved T) (snd w)"
  shows "(resume n out w = w \<or> T (Answered out) (fst w) (fst (resume n out w))) \<and>
     list_all (behaved T) (snd (resume n out w))"
proof (cases "n < length (snd w)")
  case False
  with assms show ?thesis by (simp add: resume_def)
next
  case True
  let ?others = "take n (snd w) @ drop (Suc n) (snd w)"
  from assms have oth: "list_all (behaved T) ?others" by (rule list_all_others)
  from assms True have b: "behaved T (snd w ! n)" by (simp add: list_all_length)
  show ?thesis
  proof (cases "snd w ! n")
    case (OnPost p k)
    show ?thesis
    proof (cases out)
      case (PostDone r)
      from b OnPost have "obeys T (\<lambda>a. T) (k r (fst w)) (Answered (PostDone r)) (fst w)" by simp
      from suspend_obeys[OF this oth] True OnPost PostDone show ?thesis
        by (simp add: resume_def)
    qed (use assms True OnPost in \<open>simp_all add: resume_def\<close>)
  next
    case (OnGet t k)
    show ?thesis
    proof (cases out)
      case (GetDone r)
      from b OnGet have "obeys T (\<lambda>a. T) (k r (fst w)) (Answered (GetDone r)) (fst w)" by simp
      from suspend_obeys[OF this oth] True OnGet GetDone show ?thesis
        by (simp add: resume_def)
    qed (use assms True OnGet in \<open>simp_all add: resume_def\<close>)
  next
    case (OnSleep ms k)
    show ?thesis
    proof (cases out)
      case TimerFired
      from b OnSleep have "obeys T (\<lambda>a. T) (k (fst w)) (Answered TimerFired) (fst w)" by simp
      from suspend_obeys[OF this oth] True OnSleep TimerFired show ?thesis
        by (simp add: resume_def)
    qed (use assms True OnSleep in \<open>simp_all add: resume_def\<close>)
  qed
qed


section \<open>The handlers of the WebSocket server\<close>

lemma ws_quiet_refl [simp]: "ws_quiet s s"
  by (simp add: ws_quiet_def)

lemma ws_quiet_token [simp]: "ws_quiet s0 (s\<lparr>authToken := t\<rparr>) = ws_quiet s0 s"
proof
  assume "ws_quiet s0 (s\<lparr>authToken := t\<rparr>)"
  then have "s\<lparr>authToken := t\<rparr> = s0\<lparr>authToken := t\<rparr>" by (simp add: ws_quiet_def)
  then have "(s\<lparr>authToken := t\<rparr>)\<lparr>authToken := authToken s\<rparr> = (s0\<lparr>authToken := t\<rparr>)\<lparr>authToken := authToken s\<rparr>"
    by simp
  then show "ws_quiet s0 s" by (simp add: ws_quiet_def)
next
  assume "ws_quiet s0 s"
  then have "s = s0\<lparr>authToken := authToken s\<rparr>" by (simp add: ws_quiet_def)
  then have "s\<lparr>authToken := t\<rparr> = (s0\<lparr>authToken := authToken s\<rparr>)\<lparr>authToken := t\<rparr>" by simp
  then show "ws_quiet s0 (s\<lparr>authToken := t\<rparr>)" by (simp add: ws_quiet_def)
qed

lemma ws_quiet_fields:
  assumes "ws_quiet s0 s"
  shows "latestStockMap s = latestStockMap s0" and "clients s = clients s0"
    and "readyState s = readyState s0" and "outbox s = outbox s0" and "now s = now s0"
proof -
  from assms have e: "s = s0\<lparr>authToken := authToken s\<rparr>" by (simp add: ws_quiet_def)
  show "latestStockMap s = latestStockMap s0" by (subst e) simp
  show "clients s = clients s0" by (subst e) simp
  show "readyState s = readyState s0" by (subst e) simp
  show "outbox s = outbox s0" by (subst e) simp
  show "now s = now s0" by (subst e) simp
qed

lemma getIDLCAuthToken_from_obeys:
  "ws_quiet s0 s \<Longrightarrow>
   obeys (\<lambda>g. ws_quiet) (\<lambda>a g. ws_quiet) (getIDLCAuthToken_from a n s) g s0"
proof (induction "Suc n - a" arbitrary: a s g s0)
  case 0
  then show ?case by (simp add: getIDLCAuthToken_from.simps)
next
  case (Suc d)
  then have le: "a \<le> n" by simp
  have d: "d = Suc n - Suc a" using Suc.hyps(2) by simp
  note IH = Suc.hyps(1)[OF d]
  have last: "getIDLCAuthToken_from (Suc m) m s1 = Return SNull s1" for s1 m
    by (simp add: getIDLCAuthToken_from.simps[of "Suc m"])
  from Suc.prems le show ?case
    by (simp add: getIDLCAuthToken_from.simps[of a] IH last
        split: post_outcome.splits option.splits)
qed

lemma getIDLCAuthToken_obeys:
  "ws_quiet s0 s \<Longrightarrow> obeys (\<lambda>g. ws_quiet) (\<lambda>a g. ws_quiet) (getIDLCAuthToken n s) g s0"
  by (simp add: getIDLCAuthToken_def getIDLCAuthToken_from_obeys)

lemma getAllStockCompanies_from_obeys:
  "ws_quiet s0 s \<Longrightarrow>
   obeys (\<lambda>g. ws_quiet) ws_fetched (getAllStockCompanies_from a n tok s) g s0"
proof (induction "Suc n - a" arbitrary: a tok s g s0)
  case 0
  then show ?case by (simp add: getAllStockCompanies_from.simps ws_fetched_def)
next
  case (Suc d)
  then have le: "a \<le> n" by simp
  have d: "d = Suc n - Suc a" using Suc.hyps(2) by simp
  note IH = Suc.hyps(1)[OF d]
  have auth: "obeys (\<lambda>g. ws_quiet) ws_fetched
      (abind (abind (getIDLCAuthToken 5 s1) (\<lambda>t s2. Return (authToken s2) s2)) f) g1 s1"
    if "\<And>token1 s2 g s0. ws_quiet s0 s2 \<Longrightarrow> obeys (\<lambda>g. ws_quiet) ws_fetched (f token1 s2) g s0"
    for s1 g1 f
    apply (rule obeys_abind[where Q="\<lambda>a g. ws_quiet"])
     apply (rule obeys_abind[where Q="\<lambda>a g. ws_quiet"])
      apply (rule getIDLCAuthToken_obeys)
      apply simp
     apply simp
    apply (erule that)
    done
  from Suc.prems le show ?case
    by (auto simp add: getAllStockCompanies_from.simps[of a] IH ws_fetched_def
        split: get_outcome.splits intro!: auth)
qed

lemma getAllStockCompanies_obeys:
  "ws_quiet s0 s \<Longrightarrow> obeys (\<lambda>g. ws_quiet) ws_fetched (getAllStockCompanies tok n s) g s0"
  by (simp add: getAllStockCompanies_def getAllStockCompanies_from_obeys ws_fetched_def)

lemma fetchAndBroadcastStockData_obeys:
  "ws_quiet s0 s \<Longrightarrow>
   obeys (\<lambda>g. ws_quiet) (ws_cycle_end isInitial) (fetchAndBroadcastStockData isInitial s) g s0"
  unfolding fetchAndBroadcastStockData_def
  apply (rule obeys_abind[where Q="\<lambda>a g. ws_quiet"])
   apply (simp add: getIDLCAuthToken_obeys)
  apply (simp add: ws_cycle_end_def)
  apply (intro impI)
  apply (rule obeys_abind[where Q=ws_fetched])
   apply (rule getAllStockCompanies_obeys)
   apply assumption
  apply (auto simp add: ws_fetched_def ws_cycle_end_def split: option.splits prod.splits)
  done

lemma initial_fetch_obeys:
  "obeys (\<lambda>g. ws_quiet) (\<lambda>a. ws_effect) (initial_fetch s) Called s"
  unfolding initial_fetch_def
  apply (rule obeys_abind[where Q="\<lambda>a g. ws_quiet"])
   apply (simp add: getIDLCAuthToken_obeys)
  apply (simp add: ws_effect_def)
  apply (intro impI)
  apply (rule obeys_abind[where Q="ws_cycle_end True"])
   apply (rule fetchAndBroadcastStockData_obeys)
   apply assumption
  apply (auto simp add: ws_cycle_end_def ws_effect_def)
  apply (metis snd_conv)
  done

lemma api_stock_obeys:
  "obeys (\<lambda>g. ws_quiet) (\<lambda>a. ws_effect) (api_stock s) Called s"
  unfolding api_stock_def
  apply (rule obeys_abind[where Q="\<lambda>a g. ws_quiet"])
   apply (simp add: getIDLCAuthToken_obeys)
  apply (rule obeys_weaken[where T="\<lambda>g. ws_quiet" and Q=ws_fetched])
    apply (rule getAllStockCompanies_obeys)
    apply assumption
   apply assumption
  apply (auto simp add: ws_fetched_def ws_effect_def split: option.splits)
  done


subsection \<open>The events of the WebSocket server\<close>

lemma ws_effect_Called [simp]: "ws_effect Called s0 s = ws_quiet s0 s"
  by (simp add: ws_effect_def)

lemma ws_quiet_effect: "ws_quiet s0 s \<Longrightarrow> ws_effect g s0 s"
  by (simp add: ws_effect_def)

lemma ws_cycle_end_effect: "ws_cycle_end isInitial r g s0 s \<Longrightarrow> ws_effect g s0 s"
  unfolding ws_cycle_end_def ws_effect_def by (metis snd_conv)

lemma ws_fetched_effect: "ws_fetched res g s0 s \<Longrightarrow> ws_effect g s0 s"
  by (auto simp add: ws_fetched_def ws_effect_def split: option.splits)

lemma start_ws:
  assumes "obeys (\<lambda>g. ws_quiet) Q (f (fst w)) Called (fst w)"
    and "\<And>a g s0 s. Q a g s0 s \<Longrightarrow> ws_effect g s0 s"
    and "list_all (behaved ws_effect) (snd w)"
  shows "ws_quiet (fst w) (fst (start f w)) \<and> list_all (behaved ws_effect) (snd (start f w))"
proof -
  have "obeys ws_effect Q (f (fst w)) Called (fst w)"
    by (rule obeys_weaken[OF assms(1)]) (simp_all add: ws_quiet_effect)
  have "ws_effect Called (fst w) (fst (start f w)) \<and>
      list_all (behaved ws_effect) (snd (start f w))"
  proof (rule start_obeys[where T=ws_effect and Q=Q and f=f and w=w])
    show "obeys ws_effect Q (f (fst w)) Called (fst w)" by fact
    show "\<And>a g s0 s. Q a g s0 s \<Longrightarrow> ws_effect g s0 s" by (rule assms(2))
    show "list_all (behaved ws_effect) (snd w)" by fact
  qed
  then show ?thesis by simp
qed

lemma start_cycle_ws:
  assumes "list_all (behaved ws_effect) (snd w)"
  shows "ws_quiet (fst w) (fst (start (fetchAndBroadcastStockData isInitial) w)) \<and>
     list_all (behaved ws_effect) (snd (start (fetchAndBroadcastStockData isInitial) w))"
proof (rule start_ws[where Q="ws_cycle_end isInitial"
      and f="fetchAndBroadcastStockData isInitial" and w=w])
  show "obeys (\<lambda>g. ws_quiet) (ws_cycle_end isInitial)
      (fetchAndBroadcastStockData isInitial (fst w)) Called (fst w)"
    by (rule fetchAndBroadcastStockData_obeys) simp
  show "\<And>a g s0 s. ws_cycle_end isInitial a g s0 s \<Longrightarrow> ws_effect g s0 s"
    by (rule ws_cycle_end_effect)
  show "list_all (behaved ws_effect) (snd w)" by fact
qed

lemma start_others_ws:
  assumes "list_all (behaved ws_effect) (snd w)"
  shows "ws_quiet (fst w) (fst (start initial_fetch w)) \<and>
     list_all (behaved ws_effect) (snd (start initial_fetch w))"
    and "ws_quiet (fst w) (fst (start api_stock w)) \<and>
     list_all (behaved ws_effect) (snd (start api_stock w))"
    and "ws_quiet (fst w) (fst (start (getIDLCAuthToken 5) w)) \<and>
     list_all (behaved ws_effect) (snd (start (getIDLCAuthToken 5) w))"
proof -
  show "ws_quiet (fst w) (fst (start initial_fetch w)) \<and>
     list_all (behaved ws_effect) (snd (start initial_fetch w))"
  proof (rule start_ws[where Q="\<lambda>a. ws_effect" and f=initial_fetch and w=w])
    show "obeys (\<lambda>g. ws_quiet) (\<lambda>a. ws_effect) (initial_fetch (fst w)) Called (fst w)"
      by (rule initial_fetch_obeys)
  qed (use assms in simp_all)
  show "ws_quiet (fst w) (fst (start api_stock w)) \<and>
     list_all (behaved ws_effect) (snd (start api_stock w))"
  proof (rule start_ws[where Q="\<lambda>a. ws_effect" and f=api_stock and w=w])
    show "obeys (\<lambda>g. ws_quiet) (\<lambda>a. ws_effect) (api_stock (fst w)) Called (fst w)"
      by (rule api_stock_obeys)
  qed (use assms in simp_all)
  show "ws_quiet (fst w) (fst (start (getIDLCAuthToken 5) w)) \<and>
     list_all (behaved ws_effect) (snd (start (getIDLCAuthToken 5) w))"
  proof (rule start_ws[where Q="\<lambda>a g. ws_quiet" and f="getIDLCAuthToken 5" and w=w])
    show "obeys (\<lambda>g. ws_quiet) (\<lambda>a g. ws_quiet) (getIDLCAuthToken 5 (fst w)) Called (fst w)"
      by (rule getIDLCAuthToken_obeys) simp
  qed (use assms in \<open>simp_all add: ws_quiet_effect\<close>)
qed

lemma ws_step_changes:
  assumes inv: "list_all (behaved ws_effect) (snd w)"
  shows "ws_changes ev (fst w) (fst (ws_step ev w)) \<and>
     list_all (behaved ws_effect) (snd (ws_step ev w))"
proof (cases ev)
  case CronTick
  from start_cycle_ws[OF inv, of False] show ?thesis using CronTick by simp
next
  case StartupTimer
  from start_others_ws(1)[OF inv] show ?thesis using StartupTimer by simp
next
  case ApiAuth
  from start_others_ws(3)[OF inv] show ?thesis using ApiAuth by simp
next
  case ApiStock
  from start_others_ws(2)[OF inv] show ?thesis using ApiStock by simp
next
  case (Connection c)
  let ?w1 = "(on_connection c (fst w), snd w)"
  from inv have inv1: "list_all (behaved ws_effect) (snd ?w1)" by simp
  from start_cycle_ws[OF inv1, of True]
  show ?thesis using Connection inv by (simp add: Let_def)
next
  case (Close c)
  with inv show ?thesis by simp
next
  case (Error c)
  with inv show ?thesis by simp
next
  case (SocketState c st)
  with inv show ?thesis by simp
next
  case (Clock t)
  with inv show ?thesis by simp
next
  case (Outcome n out)
  from resume_obeys[OF inv, of n out] Outcome show ?thesis
    by (auto simp add: ws_quiet_effect)
qed

lemma ws_steps_behaved:
  "list_all (behaved ws_effect) (snd w) \<Longrightarrow> list_all (behaved ws_effect) (snd (ws_steps evs w))"
proof (induction evs arbitrary: w)
  case Nil
  then show ?case by (simp add: ws_steps_def)
next
  case (Cons ev evs)
  from ws_step_changes[OF Cons.prems, of ev]
  have "list_all (behaved ws_effect) (snd (ws_step ev w))" by simp
  from Cons.IH[OF this] show ?case by (simp add: ws_steps_def)
qed

lemma ws_reachable_changes:
  "ws_changes ev (fst (ws_steps evs (s, []))) (fst (ws_step ev (ws_steps evs (s, []))))"
proof -
  have "list_all (behaved ws_effect) (snd (ws_steps evs (s, [])))"
    by (rule ws_steps_behaved) simp
  from ws_step_changes[OF this] show ?thesis by simp
qed


section \<open>The handlers of the socket.io server\<close>

lemma stock_updates_append [simp]:
  "stock_updates (ms @ ns) = stock_updates ms @ stock_updates ns"
  by (induction ms rule: stock_updates.induct) simp_all

lemma sio_quiet_refl [simp]: "sio_quiet s s"
  by (simp add: sio_quiet_def)

lemma sio_quiet_trans: "sio_quiet s s1 \<Longrightarrow> sio_quiet s1 s2 \<Longrightarrow> sio_quiet s s2"
  by (simp add: sio_quiet_def sio_frame_def)

lemma sio_quiet_simps [simp]:
  "sio_quiet (sio_set_now t s) s1 = sio_quiet s s1"
  "sio_quiet s (sio_set_now t s1) = sio_quiet s s1"
  "sio_quiet s (s1\<lparr>sio_authToken := tok\<rparr>) = sio_quiet s s1"
  "sio_quiet (s\<lparr>sio_authToken := tok\<rparr>) s1 = sio_quiet s s1"
  "sio_quiet s (s1\<lparr>tokenExpiryTime := ex\<rparr>) = sio_quiet s s1"
  "sio_quiet s (io_emit (AuthStatusAuthenticated t) s1) = sio_quiet s s1"
  "sio_quiet s (io_emit (AuthStatusError err t) s1) = sio_quiet s s1"
  "sio_quiet s (io_emit (FetchStatusError err t) s1) = sio_quiet s s1"
  by (simp_all add: sio_quiet_def sio_frame_def sio_set_now_def io_emit_def)

lemma try_payloads_obeys:
  "sio_quiet s0 s \<Longrightarrow>
   obeys (\<lambda>g. sio_quiet) (\<lambda>a g. sio_quiet) (try_payloads ps lastError s) g s0"
proof (induction ps arbitrary: lastError s g s0)
  case Nil
  then show ?case by simp
next
  case (Cons p ps)
  from Cons.prems show ?case
    by (simp add: Cons.IH split: post_outcome.splits)
qed

lemma getAuthToken_obeys:
  "sio_quiet s0 s \<Longrightarrow>
   obeys (\<lambda>g. sio_quiet) (\<lambda>a g. sio_quiet) (getAuthToken forceRefresh s) g s0"
  by (simp add: getAuthToken_def try_payloads_obeys)

lemma fetch_failed_quiet:
  "fetch_failed err s = (r, s1) \<Longrightarrow> sio_quiet s s1 \<and> (\<forall>xs. r \<noteq> Data xs)"
  by (auto simp add: fetch_failed_def)

lemma fetchStockData_obeys:
  "sio_quiet s0 s \<Longrightarrow> obeys (\<lambda>g. sio_quiet) sio_fetch_end (fetchStockData depth s) g s0"
proof (induction depth arbitrary: s g s0)
  case 0
  then show ?case by (simp add: sio_fetch_end_def)
next
  case (Suc depth)
  show ?case
    unfolding fetchStockData.simps
  proof (rule obeys_abind[where Q="\<lambda>a g. sio_quiet"])
    show "obeys (\<lambda>g. sio_quiet) (\<lambda>a g. sio_quiet) (getAuthToken False s) g s0"
      by (rule getAuthToken_obeys) fact
  next
    fix token g1 s1 s2
    assume q: "sio_quiet s1 (s2 :: sio_state)"
    have failed: "obeys (\<lambda>g. sio_quiet) sio_fetch_end
        (case fetch_failed err sa of (r, sb) \<Rightarrow> Return r sb) g2 sc"
      if "sio_quiet sc sa" for err sa g2 sc
      using that by (simp add: fetch_failed_def sio_fetch_end_def)
    have stored: "obeys (\<lambda>g. sio_quiet) sio_fetch_end
        (case store_updates b sa of (r, sb) \<Rightarrow> Return r sb)
        (Answered (GetDone (GetResponse 200 b))) sa" for b sa
      by (cases "store_updates b sa") (simp add: sio_fetch_end_def)
    show "obeys (\<lambda>g. sio_quiet) sio_fetch_end
       (if \<not> truthy token
        then case fetch_failed NoAuthTokenAvailable s2 of (r, s2) \<Rightarrow> Return r s2
        else AwaitGet token s2
          (\<lambda>r s2.
            case r of
              GetResponse status b \<Rightarrow>
                if status = 401 then fetchStockData depth (s2\<lparr>sio_authToken := SNull\<rparr>)
                else if status \<noteq> 200
                  then case fetch_failed (ApiReturnedStatus status) s2 of (r, s3) \<Rightarrow> Return r s3
                  else case store_updates b s2 of (r, s3) \<Rightarrow> Return r s3
            | GetError c status \<Rightarrow>
                case fetch_failed (AxiosError c status) s2 of (r, s3) \<Rightarrow> Return r s3))
       g1 s1"
      using q by (auto simp add: failed stored Suc.IH split: get_outcome.splits)
  qed
qed

subsection \<open>The events of the socket.io server\<close>

lemma sio_effect_Called [simp]: "sio_effect Called s0 s = sio_quiet s0 s"
  by (simp add: sio_effect_def)

lemma sio_quiet_effect: "sio_quiet s0 s \<Longrightarrow> sio_effect g s0 s"
  by (simp add: sio_effect_def)

lemma sio_fetch_end_effect: "sio_fetch_end r g s0 s \<Longrightarrow> sio_effect g s0 s"
  unfolding sio_fetch_end_def sio_effect_def by (metis snd_conv)

lemma start_sio:
  assumes "obeys (\<lambda>g. sio_quiet) Q (f (fst w)) Called (fst w)"
    and "\<And>a g s0 s. Q a g s0 s \<Longrightarrow> sio_effect g s0 s"
    and "list_all (behaved sio_effect) (snd w)"
  shows "sio_quiet (fst w) (fst (start f w)) \<and> list_all (behaved sio_effect) (snd (start f w))"
proof -
  have "obeys sio_effect Q (f (fst w)) Called (fst w)"
    by (rule obeys_weaken[OF assms(1)]) (simp_all add: sio_quiet_effect)
  have "sio_effect Called (fst w) (fst (start f w)) \<and>
      list_all (behaved sio_effect) (snd (start f w))"
  proof (rule start_obeys[where T=sio_effect and Q=Q and f=f and w=w])
    show "obeys sio_effect Q (f (fst w)) Called (fst w)" by fact
    show "\<And>a g s0 s. Q a g s0 s \<Longrightarrow> sio_effect g s0 s" by (rule assms(2))
    show "list_all (behaved sio_effect) (snd w)" by fact
  qed
  then show ?thesis by simp
qed

lemma sio_step_changes:
  assumes inv: "list_all (behaved sio_effect) (snd w)"
  shows "sio_changes ev (fst w) (fst (sio_step depth ev w)) \<and>
     list_all (behaved sio_effect) (snd (sio_step depth ev w))"
proof (cases ev)
  case FetchCall
  have "sio_quiet (fst w) (fst (start (fetchStockData depth) w)) \<and>
      list_all (behaved sio_effect) (snd (start (fetchStockData depth) w))"
  proof (rule start_sio[where Q=sio_fetch_end and f="fetchStockData depth" and w=w])
    show "obeys (\<lambda>g. sio_quiet) sio_fetch_end (fetchStockData depth (fst w)) Called (fst w)"
      by (rule fetchStockData_obeys) simp
    show "\<And>a g s0 s. sio_fetch_end a g s0 s \<Longrightarrow> sio_effect g s0 s"
      by (rule sio_fetch_end_effect)
    show "list_all (behaved sio_effect) (snd w)" by fact
  qed
  with FetchCall show ?thesis by simp
next
  case AuthCall
  have "sio_quiet (fst w) (fst (start (getAuthToken True) w)) \<and>
      list_all (behaved sio_effect) (snd (start (getAuthToken True) w))"
  proof (rule start_sio[where Q="\<lambda>a g. sio_quiet" and f="getAuthToken True" and w=w])
    show "obeys (\<lambda>g. sio_quiet) (\<lambda>a g. sio_quiet) (getAuthToken True (fst w)) Called (fst w)"
      by (rule getAuthToken_obeys) simp
  qed (use inv in \<open>simp_all add: sio_quiet_effect\<close>)
  with AuthCall show ?thesis by simp
next
  case (SioClock t)
  with inv show ?thesis by simp
next
  case (SioOutcome n out)
  from resume_obeys[OF inv, of n out] SioOutcome show ?thesis
    by (auto simp add: sio_quiet_effect)
qed

lemma sio_steps_behaved:
  "list_all (behaved sio_effect) (snd w) \<Longrightarrow>
   list_all (behaved sio_effect) (snd (sio_steps depth evs w))"
proof (induction evs arbitrary: w)
  case Nil
  then show ?case by (simp add: sio_steps_def)
next
  case (Cons ev evs)
  from sio_step_changes[OF Cons.prems, of ev depth]
  have "list_all (behaved sio_effect) (snd (sio_step depth ev w))" by simp
  from Cons.IH[OF this] show ?case by (simp add: sio_steps_def)
qed

lemma sio_reachable_changes:
  "sio_changes ev (fst (sio_steps depth evs (s, [])))
     (fst (sio_step depth ev (sio_steps depth evs (s, []))))"
proof -
  have "list_all (behaved sio_effect) (snd (sio_steps depth evs (s, [])))"
    by (rule sio_steps_behaved) simp
  from sio_step_changes[OF this] show ?thesis by simp
qed


section \<open>Records without a key\<close>

lemma stockCode_keyless:
  "\<not> truthy (stockCode stk) \<longleftrightarrow> \<not> truthy (dseCompanyCode stk) \<and> \<not> truthy (trading_code stk)"
  by (simp add: stockCode_def)

lemma update_values: "snd ` set (AList.update k v al) \<subseteq> insert v (snd ` set al)"
  by (induction al) auto

lemma set_insert_index: "set (insert_index n k v own) = insert (k, v) (set own)"
  by (induction own) (auto split: option.splits if_splits)

lemma own_set_values: "snd ` set (own_set k v own) \<subseteq> insert v (snd ` set own)"
  using update_values[of k v own]
  by (auto simp add: own_set_def set_insert_index split: option.splits)

lemma set_property_values:
  "set_property own proto k v = (own1, proto1) \<Longrightarrow> snd ` set own1 \<subseteq> insert v (snd ` set own)"
  using own_set_values[of k v own]
  by (auto simp add: set_property_def split: if_splits)

lemma process_stock_unseen:
  assumes "\<not> truthy (stockCode stk)" and "stk \<notin> snd ` set own" and "stk \<notin> set ups"
    and "process_stock x (own, proto, ups) = (own1, proto1, ups1)"
  shows "stk \<notin> snd ` set own1 \<and> stk \<notin> set ups1"
proof (cases "truthy (stockCode x)")
  case False
  with assms show ?thesis by (simp add: process_stock_keyless)
next
  case True
  with assms(1) have ne: "x \<noteq> stk" by auto
  obtain o2 p2 where S: "set_property own proto (property_name (stockCode x)) x = (o2, p2)"
    by (cases "set_property own proto (property_name (stockCode x)) x")
  from set_property_values[OF S] assms(2) ne have "stk \<notin> snd ` set o2" by auto
  with assms True S ne show ?thesis
    by (auto simp add: process_stock_keyed split: if_splits)
qed

lemma process_updates_unseen:
  "\<not> truthy (stockCode stk) \<Longrightarrow> stk \<notin> snd ` set own \<Longrightarrow> stk \<notin> set ups \<Longrightarrow>
   process_updates xs (own, proto, ups) = (fin, own1, proto1, ups1) \<Longrightarrow>
   stk \<notin> snd ` set own1 \<and> stk \<notin> set ups1"
proof (induction xs arbitrary: own proto ups)
  case Nil
  then show ?case by simp
next
  case (Cons x xs)
  show ?case
  proof (cases x)
    case None
    with Cons.prems show ?thesis by simp
  next
    case (Some y)
    obtain p q u where P: "process_stock y (own, proto, ups) = (p, q, u)"
      by (metis prod_cases3)
    from process_stock_unseen[OF Cons.prems(1,2,3) P] Cons.IH[OF Cons.prems(1), of p u q]
      Cons.prems(4) Some P
    show ?thesis by simp
  qed
qed

lemma unseen_simps [simp]:
  "unseen stk (sio_set_now t s) = unseen stk s"
  "unseen stk (s\<lparr>sio_authToken := tok\<rparr>) = unseen stk s"
  "unseen stk (s\<lparr>tokenExpiryTime := ex\<rparr>) = unseen stk s"
  "unseen stk (s\<lparr>lastFetchTime := lf\<rparr>) = unseen stk s"
  "unseen stk (s\<lparr>prototype := pr\<rparr>) = unseen stk s"
  "unseen stk (io_emit (AuthStatusAuthenticated t) s) = unseen stk s"
  "unseen stk (io_emit (AuthStatusError err t) s) = unseen stk s"
  "unseen stk (io_emit (FetchStatusError err t) s) = unseen stk s"
  by (simp_all add: unseen_def sio_set_now_def io_emit_def)

lemma sio_quiet_unseen: "sio_quiet s0 s \<Longrightarrow> unseen stk s0 \<Longrightarrow> unseen stk s"
  by (simp add: sio_quiet_def sio_frame_def unseen_def)

lemma store_updates_unseen:
  assumes k: "\<not> truthy (stockCode stk)" and u: "unseen stk s"
    and S: "store_updates b s = (r, s1)"
  shows "unseen stk s1"
proof (cases "stock_array b")
  case None
  with S u show ?thesis by (auto simp add: store_updates_def fetch_failed_def)
next
  case (Some xs)
  obtain fin own1 proto1 ups1 where
    P: "process_updates xs (previousStockData s, prototype s, []) = (fin, own1, proto1, ups1)"
    by (metis prod_cases4)
  from u have "stk \<notin> snd ` set (previousStockData s)" by (simp add: unseen_def)
  from process_updates_unseen[OF k this _ P]
  have n: "stk \<notin> snd ` set own1" "stk \<notin> set ups1" by simp_all
  with u have
    "unseen stk (s\<lparr>previousStockData := own1, prototype := proto1\<rparr>)"
    "unseen stk (io_emit (StockUpdates ups1)
       (s\<lparr>previousStockData := own1, prototype := proto1, lastFetchTime := lf\<rparr>))" for lf
    by (auto simp add: unseen_def io_emit_def)
  with S Some P show ?thesis
    by (auto simp add: store_updates_def fetch_failed_def Let_def split: if_splits)
qed

lemma fetchStockData_unseen:
  assumes k: "\<not> truthy (stockCode stk)" and u: "unseen stk s"
    and R: "run (fetchStockData depth s) e sio_set_now i = (r, s1, tr)"
  shows "unseen stk s1"
proof -
  have O: "obeys (\<lambda>g. sio_quiet) sio_fetch_end (fetchStockData depth s) Called s"
    by (rule fetchStockData_obeys) simp
  have "\<exists>g1 sb. unseen stk sb \<and> sio_fetch_end r g1 sb s1 \<and> (g1 = Called \<or> answer_in e g1)"
  proof (rule run_obeys[where I="unseen stk", OF O u _ _ R])
    show "\<And>g s0 s. sio_quiet s0 s \<Longrightarrow> unseen stk s0 \<Longrightarrow> unseen stk s"
      by (rule sio_quiet_unseen)
    show "\<And>t s. unseen stk s \<Longrightarrow> unseen stk (sio_set_now t s)" by simp
  qed
  then obtain g1 sb where ub: "unseen stk sb" and E: "sio_fetch_end r g1 sb s1" by blast
  from E show ?thesis
    unfolding sio_fetch_end_def
  proof
    assume "sio_quiet sb s1 \<and> (\<forall>xs. r \<noteq> Data xs)"
    with ub show ?thesis by (auto intro: sio_quiet_unseen)
  next
    assume "\<exists>b. g1 = Answered (GetDone (GetResponse 200 b)) \<and> store_updates b sb = (r, s1)"
    then obtain b where "store_updates b sb = (r, s1)" by blast
    from store_updates_unseen[OF k ub this] show ?thesis .
  qed
qed

text \<open>
  C10. A record without \<^verbatim>\<open>dseCompanyCode\<close> and without \<^verbatim>\<open>trading_code\<close> is skipped by the
  loop of \<^verbatim>\<open>fetchStockData\<close>: the store and the updates stay as they are. Hence a record
  without a key that is not in the store and in no emitted \<^verbatim>\<open>stock-updates\<close> message is
  in neither after any call of \<^verbatim>\<open>fetchStockData\<close>, whatever was fetched, and is not in
  what a socket is sent when it connects.
\<close>

theorem keyless_record_skipped:
  "\<not> truthy (dseCompanyCode stk) \<Longrightarrow> \<not> truthy (trading_code stk) \<Longrightarrow> unseen stk s \<Longrightarrow>
   process_stock stk acc = acc \<and>
   (case run (fetchStockData depth s) e sio_set_now 0 of
      (r, s1, tr) \<Rightarrow> unseen stk s1 \<and>
        (\<forall>ups. StockUpdates ups \<in> set (sio_on_connection s1) \<longrightarrow> stk \<notin> set ups))"
proof -
  assume "\<not> truthy (dseCompanyCode stk)" and "\<not> truthy (trading_code stk)"
  then have k: "\<not> truthy (stockCode stk)" by (simp add: stockCode_def)
  assume u: "unseen stk s"
  obtain r s1 tr where R: "run (fetchStockData depth s) e sio_set_now 0 = (r, s1, tr)"
    by (metis prod_cases3)
  from fetchStockData_unseen[OF k u R] have u1: "unseen stk s1" .
  then have "\<forall>ups. StockUpdates ups \<in> set (sio_on_connection s1) \<longrightarrow> stk \<notin> set ups"
    by (auto simp add: sio_on_connection_def unseen_def Let_def)
  with u1 R process_stock_keyless[OF k] show ?thesis by simp
qed

lemma run_sio_keyless:
  "fst (run (fetchStockData 1 sio_with_AAA) env_keyless sio_set_now 0) =
     Data [Some stock_keyless, Some stock_BBB]"
  by (simp add: getAuthToken_def sio_with_AAA_def env_keyless_def
      run_abind store_updates_def Let_def split: prod.splits)

theorem keyless_record_skipped_witness:
  "\<not> truthy (dseCompanyCode stock_keyless) \<and> \<not> truthy (trading_code stock_keyless) \<and>
   unseen stock_keyless sio_with_AAA \<and>
   (case run (fetchStockData 1 sio_with_AAA) env_keyless sio_set_now 0 of
      (r, s1, tr) \<Rightarrow> r = Data [Some stock_keyless, Some stock_BBB] \<and> unseen stock_keyless s1)"
proof -
  have h1: "\<not> truthy (dseCompanyCode stock_keyless)" and h2: "\<not> truthy (trading_code stock_keyless)"
    by (simp_all add: stock_keyless_def)
  have h3: "unseen stock_keyless sio_with_AAA"
    by (simp add: unseen_def sio_with_AAA_def stock_keyless_def stock_AAA_def)
  from keyless_record_skipped[OF h1 h2 h3, of "([], None, [])" 1 env_keyless] run_sio_keyless h1 h2 h3
  show ?thesis by (auto split: prod.splits)
qed


section \<open>Broadcasts and what a cycle publishes\<close>

lemma send_fields [simp]:
  "clients (send m c s) = clients s" "readyState (send m c s) = readyState s"
  "latestStockMap (send m c s) = latestStockMap s" "authToken (send m c s) = authToken s"
  "now (send m c s) = now s"
  "outbox (send m c s) d = (if d = c then outbox s c @ [m] else outbox s d)"
  by (simp_all add: send_def)

lemma broadcast_fold:
  "clients (fold (\<lambda>client s1. if readyState s1 client = OPEN then send m client s1 else s1) cs s)
     = clients s \<and>
   readyState (fold (\<lambda>client s1. if readyState s1 client = OPEN then send m client s1 else s1) cs s)
     = readyState s \<and>
   latestStockMap (fold (\<lambda>client s1. if readyState s1 client = OPEN then send m client s1 else s1) cs s)
     = latestStockMap s \<and>
   (distinct cs \<longrightarrow>
     outbox (fold (\<lambda>client s1. if readyState s1 client = OPEN then send m client s1 else s1) cs s) c
       = (if c \<in> set cs \<and> readyState s c = OPEN then outbox s c @ [m] else outbox s c))"
proof (induction cs arbitrary: s)
  case Nil
  show ?case by simp
next
  case (Cons d cs)
  show ?case
    using Cons.IH[of "send m d s"] Cons.IH[of s] by auto
qed

lemma broadcast_fields [simp]:
  "clients (broadcast m s) = clients s" "readyState (broadcast m s) = readyState s"
  "latestStockMap (broadcast m s) = latestStockMap s"
  using broadcast_fold[of m "clients s" s] by (simp_all add: broadcast_def)

lemma broadcast_outbox:
  "distinct (clients s) \<Longrightarrow>
   outbox (broadcast m s) c =
     (if c \<in> set (clients s) \<and> readyState s c = OPEN then outbox s c @ [m] else outbox s c)"
  using broadcast_fold[of m "clients s" s c] by (simp add: broadcast_def)


lemma publish_objects:
  "publish isInitial (map Some objs) s =
     (let ups = computeUpdates (if isInitial then [] else latestStockMap s) (map mapItem objs);
          s1 = s\<lparr>latestStockMap := build_map objs []\<rparr>;
          m = \<lparr>msg_type = (if isInitial then ''stock_data'' else ''stock_update''),
               msg_data = (if isInitial then map snd (build_map objs []) else ups),
               msg_timestamp = now s\<rparr>
      in if ups \<noteq> [] \<or> isInitial then (Broadcasted m, broadcast m s1) else (NoChanges, s1))"
  by (simp add: publish_def forEach_stock_objects Let_def)

lemma forEach_stock_Some:
  "forEach_stock isInitial latest items acc = Some res \<Longrightarrow> \<exists>objs. items = map Some objs"
proof (induction items arbitrary: acc)
  case Nil
  show ?case by simp
next
  case (Cons x xs)
  show ?case
  proof (cases x)
    case None
    with Cons.prems show ?thesis by simp
  next
    case (Some y)
    with Cons.prems Cons.IH[of "forEach_body isInitial latest y acc"]
    obtain objs where "xs = map Some objs" by auto
    with Some have "x # xs = map Some (y # objs)" by simp
    then show ?thesis by (rule exI)
  qed
qed

lemma publish_store:
  "publish isInitial items s = (r, s1) \<Longrightarrow>
     (r = Rejected \<and> s1 = s) \<or>
     (\<exists>objs. items = map Some objs \<and> latestStockMap s1 = build_map objs [] \<and>
        (r = NoChanges \<or> (\<exists>m. r = Broadcasted m)))"
proof (cases "forEach_stock isInitial (latestStockMap s) items ([], [])")
  case None
  assume "publish isInitial items s = (r, s1)"
  with None show ?thesis by (simp add: publish_def)
next
  case (Some res)
  assume P: "publish isInitial items s = (r, s1)"
  from forEach_stock_Some[OF Some] obtain objs where I: "items = map Some objs" by blast
  with P have "latestStockMap s1 = build_map objs [] \<and> (r = NoChanges \<or> (\<exists>m. r = Broadcasted m))"
    by (auto simp add: publish_objects Let_def split: if_splits)
  with I show ?thesis by blast
qed


lemma broadcast_skip:
  "c \<notin> set (clients s) \<or> readyState s c \<noteq> OPEN \<Longrightarrow> outbox (broadcast m s) c = outbox s c"
proof -
  have "c \<notin> set cs \<or> readyState s c \<noteq> OPEN \<Longrightarrow>
      outbox (fold (\<lambda>client s1. if readyState s1 client = OPEN then send m client s1 else s1) cs s) c
        = outbox s c \<and>
      readyState (fold (\<lambda>client s1. if readyState s1 client = OPEN then send m client s1 else s1) cs s)
        = readyState s" for cs
  proof (induction cs arbitrary: s)
    case Nil
    show ?case by simp
  next
    case (Cons d cs)
    from Cons.prems Cons.IH[of "send m d s"] Cons.IH[of s] show ?case by auto
  qed
  from this[of "clients s"] show "c \<notin> set (clients s) \<or> readyState s c \<noteq> OPEN \<Longrightarrow>
      outbox (broadcast m s) c = outbox s c"
    by (simp add: broadcast_def)
qed

lemma broadcast_now [simp]: "now (broadcast m s) = now s"
proof -
  have "now (fold (\<lambda>client s1. if readyState s1 client = OPEN then send m client s1 else s1) cs s)
      = now s" for cs
    by (induction cs arbitrary: s) simp_all
  then show ?thesis by (simp add: broadcast_def)
qed

lemma publish_fields:
  assumes "publish isInitial items s = (r, s1)"
  shows "clients s1 = clients s" and "readyState s1 = readyState s" and "now s1 = now s"
    and "c \<notin> set (clients s) \<or> readyState s c \<noteq> OPEN \<Longrightarrow> outbox s1 c = outbox s c"
proof -
  from publish_store[OF assms] obtain objs where
    c: "(r = Rejected \<and> s1 = s) \<or> items = map Some objs" by blast
  then have "clients s1 = clients s \<and> readyState s1 = readyState s \<and> now s1 = now s \<and>
    (c \<notin> set (clients s) \<or> readyState s c \<noteq> OPEN \<longrightarrow> outbox s1 c = outbox s c)"
  proof
    assume "r = Rejected \<and> s1 = s"
    then show ?thesis by simp
  next
    assume "items = map Some objs"
    with assms show ?thesis
      by (auto simp add: publish_objects Let_def broadcast_skip split: if_splits)
  qed
  then show "clients s1 = clients s" and "readyState s1 = readyState s" and "now s1 = now s"
    and "c \<notin> set (clients s) \<or> readyState s c \<noteq> OPEN \<Longrightarrow> outbox s1 c = outbox s c"
    by blast+
qed


section \<open>The messages\<close>


lemma fetchStockData_result:
  assumes R: "run (fetchStockData depth s) e sio_set_now i = (r, s1, tr)"
  shows "\<exists>g1 sb. sio_quiet s sb \<and> sio_fetch_end r g1 sb s1 \<and> (g1 = Called \<or> answer_in e g1)"
proof (rule run_obeys[where I="sio_quiet s" and T="\<lambda>g. sio_quiet", OF _ _ _ _ R])
  show "obeys (\<lambda>g. sio_quiet) sio_fetch_end (fetchStockData depth s) Called s"
    by (rule fetchStockData_obeys) simp
  show "sio_quiet s s" by simp
  show "\<And>g s0 sa. sio_quiet s0 sa \<Longrightarrow> sio_quiet s s0 \<Longrightarrow> sio_quiet s sa"
    by (rule sio_quiet_trans)
  show "\<And>t sa. sio_quiet s sa \<Longrightarrow> sio_quiet s (sio_set_now t sa)" by simp
qed





section \<open>A cycle without data\<close>

lemma ws_frame_quiet: "ws_quiet s0 sa \<Longrightarrow> ws_frame s s0 \<Longrightarrow> ws_frame s sa"
  using ws_quiet_fields[of s0 sa] by (simp add: ws_frame_def)

lemma cycle_result:
  assumes R: "run (fetchAndBroadcastStockData isInitial s) e ws_set_now i = (r, s1, tr)"
  shows "\<exists>g1 sb. ws_frame s sb \<and> ws_cycle_end isInitial r g1 sb s1 \<and>
    (g1 = Called \<or> answer_in e g1)"
proof (rule run_obeys[where I="ws_frame s" and T="\<lambda>g. ws_quiet", OF _ _ _ _ R])
  show "obeys (\<lambda>g. ws_quiet) (ws_cycle_end isInitial)
      (fetchAndBroadcastStockData isInitial s) Called s"
    by (rule fetchAndBroadcastStockData_obeys) simp
  show "ws_frame s s" by simp
  show "\<And>g s0 sa. ws_quiet s0 sa \<Longrightarrow> ws_frame s s0 \<Longrightarrow> ws_frame s sa"
    by (rule ws_frame_quiet)
  show "\<And>t sa. ws_frame s sa \<Longrightarrow> ws_frame s (ws_set_now t sa)" by simp
qed

lemma answer_in_get:
  "g = Called \<or> answer_in e g \<Longrightarrow> g = Answered (GetDone r) \<Longrightarrow> \<exists>j. get_reply e j = r"
  by (auto simp add: answer_in_def)

lemma cycle_without_data:
  assumes nd: "\<forall>j. \<not> ws_data (get_reply e j)"
    and R: "run (fetchAndBroadcastStockData isInitial s) e ws_set_now i = (r, s1, tr)"
  shows "(r = NoToken \<or> r = NoData) \<and> ws_frame s s1"
proof -
  from cycle_result[OF R] obtain g1 sb where F: "ws_frame s sb"
    and E: "ws_cycle_end isInitial r g1 sb s1" and G: "g1 = Called \<or> answer_in e g1"
    by blast
  from E show ?thesis
    unfolding ws_cycle_end_def
  proof
    assume "ws_quiet sb s1 \<and> (r = NoToken \<or> r = NoData)"
    with F show ?thesis by (auto intro: ws_frame_quiet)
  next
    assume "\<exists>st b. g1 = Answered (GetDone (GetResponse st b)) \<and> body_truthy b \<and>
        publish isInitial (as_array b) sb = (r, s1)"
    then obtain st b where g: "g1 = Answered (GetDone (GetResponse st b))" and t: "body_truthy b"
      by blast
    from answer_in_get[OF G g] obtain j where "get_reply e j = GetResponse st b" by blast
    with nd[rule_format, of j] t show ?thesis by simp
  qed
qed

lemma fetch_without_data:
  assumes nd: "\<forall>j. \<not> sio_data (get_reply e j)"
    and R: "run (fetchStockData depth s) e sio_set_now i = (r, s1, tr)"
  shows "(\<forall>xs. r \<noteq> Data xs) \<and> sio_frame s s1"
proof -
  from fetchStockData_result[OF R] obtain g1 sb where F: "sio_quiet s sb"
    and E: "sio_fetch_end r g1 sb s1" and G: "g1 = Called \<or> answer_in e g1"
    by blast
  from E show ?thesis
    unfolding sio_fetch_end_def
  proof
    assume "sio_quiet sb s1 \<and> (\<forall>xs. r \<noteq> Data xs)"
    with sio_quiet_trans[OF F] show ?thesis by (auto simp add: sio_quiet_def)
  next
    assume "\<exists>b. g1 = Answered (GetDone (GetResponse 200 b)) \<and> store_updates b sb = (r, s1)"
    then obtain b where g: "g1 = Answered (GetDone (GetResponse 200 b))"
      and S: "store_updates b sb = (r, s1)" by blast
    from answer_in_get[OF G g] obtain j where "get_reply e j = GetResponse 200 b" by blast
    with nd[rule_format, of j] have "stock_array b = None" by simp
    with S have "fetch_failed (TypeError ''result'') sb = (r, s1)"
      by (simp add: store_updates_def)
    from fetch_failed_quiet[OF this] sio_quiet_trans[OF F] show ?thesis
      by (auto simp add: sio_quiet_def)
  qed
qed

lemma ws_effect_store:
  assumes "ws_effect g s0 s"
  shows "latestStockMap s = latestStockMap s0 \<or>
    (\<exists>st b objs. g = Answered (GetDone (GetResponse st b)) \<and> body_truthy b \<and>
       as_array b = map Some objs \<and> latestStockMap s = build_map objs [])"
  using assms unfolding ws_effect_def
proof
  assume "ws_quiet s0 s"
  from ws_quiet_fields(1)[OF this] show ?thesis by simp
next
  assume "\<exists>st b isInitial. g = Answered (GetDone (GetResponse st b)) \<and> body_truthy b \<and>
      s = snd (publish isInitial (as_array b) s0)"
  then obtain st b isInitial where g: "g = Answered (GetDone (GetResponse st b))"
    and t: "body_truthy b" and s: "s = snd (publish isInitial (as_array b) s0)" by blast
  obtain r where P: "publish isInitial (as_array b) s0 = (r, s)"
    using s by (cases "publish isInitial (as_array b) s0") simp
  from publish_store[OF P] g t show ?thesis by auto
qed

lemma ws_changes_store:
  assumes "ws_changes ev s0 s"
  shows "latestStockMap s = latestStockMap s0 \<or>
    (\<exists>n st b objs. ev = Outcome n (GetDone (GetResponse st b)) \<and> body_truthy b \<and>
       as_array b = map Some objs \<and> latestStockMap s = build_map objs [])"
proof (cases ev)
  case (Connection c)
  with assms have "ws_quiet (on_connection c s0) s" by simp
  from ws_quiet_fields(1)[OF this] show ?thesis by (simp add: on_connection_def Let_def)
next
  case (Outcome n out)
  with assms have "ws_effect (Answered out) s0 s" by simp
  from ws_effect_store[OF this] Outcome show ?thesis by auto
next
  case CronTick
  with assms ws_quiet_fields(1)[of s0 s] show ?thesis by simp
next
  case StartupTimer
  with assms ws_quiet_fields(1)[of s0 s] show ?thesis by simp
next
  case ApiAuth
  with assms ws_quiet_fields(1)[of s0 s] show ?thesis by simp
next
  case ApiStock
  with assms ws_quiet_fields(1)[of s0 s] show ?thesis by simp
qed (use assms in \<open>simp_all add: on_close_def on_error_def ws_set_now_def\<close>)

lemma forEach_stock_null:
  "None \<in> set items \<Longrightarrow> forEach_stock isInitial latest items acc = None"
proof (induction items arbitrary: acc)
  case Nil
  then show ?case by simp
next
  case (Cons x xs)
  then show ?case by (cases x) auto
qed

lemma publish_null: "None \<in> set items \<Longrightarrow> publish isInitial items s = (Rejected, s)"
  by (simp add: publish_def forEach_stock_null)

lemma process_updates_prefix:
  "process_updates (map Some objs @ None # rest) acc =
     (False, snd (process_updates (map Some objs) acc))"
  by (induction objs arbitrary: acc) simp_all

lemma process_updates_finished: "fst (process_updates (map Some objs) acc)"
  by (induction objs arbitrary: acc) simp_all

lemma store_updates_null:
  assumes "stock_array b = Some (map Some objs @ None # rest)"
  shows "store_updates b s =
     (case process_updates (map Some objs) (previousStockData s, prototype s, []) of
        (fin, own1, proto1, ups) \<Rightarrow>
          (Null (TypeError ''dseCompanyCode''),
           io_emit (FetchStatusError (TypeError ''dseCompanyCode'') (sio_now s))
             (s\<lparr>previousStockData := own1, prototype := proto1\<rparr>)))"
  using assms
  by (simp add: store_updates_def process_updates_prefix fetch_failed_def io_emit_def
      split: prod.splits)

lemma sio_effect_frame:
  assumes "sio_effect g s0 s"
  shows "sio_frame s0 s \<or> (\<exists>b. g = Answered (GetDone (GetResponse 200 b)) \<and> stock_array b \<noteq> None)"
  using assms unfolding sio_effect_def
proof
  assume "sio_quiet s0 s"
  then show ?thesis by (simp add: sio_quiet_def)
next
  assume "\<exists>b. g = Answered (GetDone (GetResponse 200 b)) \<and> s = snd (store_updates b s0)"
  then obtain b where g: "g = Answered (GetDone (GetResponse 200 b))"
    and s: "s = snd (store_updates b s0)" by blast
  show ?thesis
  proof (cases "stock_array b")
    case None
    with s show ?thesis by (simp add: store_updates_def fetch_failed_def)
  next
    case (Some xs)
    with g show ?thesis by simp
  qed
qed

lemma sio_changes_frame:
  assumes "sio_changes ev s0 s" and "\<not> sio_data_event ev"
  shows "sio_frame s0 s"
proof (cases ev)
  case (SioOutcome n out)
  with assms(1) have "sio_effect (Answered out) s0 s" by simp
  from sio_effect_frame[OF this] assms(2) SioOutcome show ?thesis by auto
qed (use assms in \<open>simp_all add: sio_quiet_def\<close>)

text \<open>
  C9, as stated, fails when the data request returns no record. In the WebSocket server a
  response with an empty array is a truthy body: the cycle replaces the store by the empty
  mapping. In the socket.io server such a response sets \<^verbatim>\<open>lastFetchTime\<close>; and a response
  whose array holds a null element makes the call fail after it has written the records
  before that element.
\<close>

theorem empty_answer_counterexample:
  "(case run (fetchAndBroadcastStockData False ws_with_AAA) env_empty_array ws_set_now 0 of
      (r, s1, tr) \<Rightarrow> r = NoChanges \<and> latestStockMap ws_with_AAA \<noteq> [] \<and> latestStockMap s1 = []) \<and>
   (case run (fetchStockData 1 sio_with_AAA) env_empty_array sio_set_now 0 of
      (r, s1, tr) \<Rightarrow> r = Data [] \<and> lastFetchTime sio_with_AAA = Some 1 \<and>
        lastFetchTime s1 = Some 10) \<and>
   (case run (fetchStockData 1 sio_with_AAA) env_null_element sio_set_now 0 of
      (r, s1, tr) \<Rightarrow> r = Null (TypeError ''dseCompanyCode'') \<and>
        map fst (previousStockData sio_with_AAA) = [''AAA''] \<and>
        map fst (previousStockData s1) = [''AAA'', ''BBB''])"
proof -
  have a: "run (fetchAndBroadcastStockData False ws_with_AAA) env_empty_array ws_set_now 0 =
      (NoChanges, ws_with_AAA\<lparr>now := 10, latestStockMap := []\<rparr>,
       [Fetched (SString ''token'') (GetResponse 200 (BArray []))])"
    by (simp add: fetchAndBroadcastStockData_def getAllStockCompanies_def
        getAllStockCompanies_from.simps[of "Suc 0"] env_empty_array_def ws_with_AAA_def
        run_abind ws_set_now_def publish_def)
  have b: "case run (fetchStockData 1 sio_with_AAA) env_empty_array sio_set_now 0 of
      (r, s1, tr) \<Rightarrow> r = Data [] \<and> lastFetchTime sio_with_AAA = Some 1 \<and>
        lastFetchTime s1 = Some 10"
    by (simp add: getAuthToken_def sio_with_AAA_def env_empty_array_def run_abind
        store_updates_def sio_set_now_def)
  have c: "case run (fetchStockData 1 sio_with_AAA) env_null_element sio_set_now 0 of
      (r, s1, tr) \<Rightarrow> r = Null (TypeError ''dseCompanyCode'') \<and>
        map fst (previousStockData sio_with_AAA) = [''AAA''] \<and>
        map fst (previousStockData s1) = [''AAA'', ''BBB'']"
    by (simp add: getAuthToken_def sio_with_AAA_def env_null_element_def run_abind
        store_updates_def fetch_failed_def process_stock_def stockCode_def stock_BBB_def
        get_property_def inherited_def object_prototype_names_def set_property_def
        own_set_def array_index_def digit_of_def sio_set_now_def io_emit_def)
  from a b c show ?thesis by (simp add: ws_with_AAA_def)
qed

text \<open>
  C9, amended. A cycle of the WebSocket server in which no data request is answered by a
  response with a truthy body ends without a token or without data and leaves
  \<^verbatim>\<open>latestStockMap\<close>, the registry and every socket's outbox as they were; whatever is in
  flight, an event that is not the arrival of such a response leaves \<^verbatim>\<open>latestStockMap\<close> as
  it is, and so does a response whose array holds a null element. A call of
  \<^verbatim>\<open>fetchStockData\<close> in which no data request is answered by a response of status 200
  with a body other than null returns no data and leaves \<^verbatim>\<open>previousStockData\<close>, its
  prototype and \<^verbatim>\<open>lastFetchTime\<close> as they were; whatever is in flight, an event that is
  not the arrival of such a response leaves them as they are. When the array of such a
  response holds a null element, the call fails with the store as the scan of the records
  before that element has left it, and with \<^verbatim>\<open>lastFetchTime\<close> as it was.
\<close>

theorem failed_cycle_changes_no_store:
  "((\<forall>i. \<not> ws_data (get_reply e i)) \<longrightarrow>
      (case run (fetchAndBroadcastStockData isInitial s) e ws_set_now 0 of
         (r, s1, tr) \<Rightarrow>
           (r = NoToken \<or> r = NoData) \<and> latestStockMap s1 = latestStockMap s \<and>
           outbox s1 = outbox s \<and> clients s1 = clients s)) \<and>
   (\<not> ws_data_event ev \<longrightarrow>
      latestStockMap (fst (ws_step ev (ws_steps evs (s, [])))) =
        latestStockMap (fst (ws_steps evs (s, [])))) \<and>
   (None \<in> set items \<longrightarrow> publish isInitial items s = (Rejected, s)) \<and>
   ((\<forall>i. \<not> sio_data (get_reply ea i)) \<longrightarrow>
      (case run (fetchStockData depth sio) ea sio_set_now 0 of
         (r, s1, tr) \<Rightarrow> (\<forall>xs. r \<noteq> Data xs) \<and> sio_frame sio s1)) \<and>
   (\<not> sio_data_event sev \<longrightarrow>
      sio_frame (fst (sio_steps depth sevs (sio, [])))
        (fst (sio_step depth sev (sio_steps depth sevs (sio, []))))) \<and>
   (stock_array b = Some (map Some objs @ None # rest) \<longrightarrow>
      store_updates b sio =
        (case process_updates (map Some objs) (previousStockData sio, prototype sio, []) of
           (fin, own1, proto1, ups) \<Rightarrow>
             (Null (TypeError ''dseCompanyCode''),
              io_emit (FetchStatusError (TypeError ''dseCompanyCode'') (sio_now sio))
                (sio\<lparr>previousStockData := own1, prototype := proto1\<rparr>))))"
proof -
  obtain r s1 tr where R: "run (fetchAndBroadcastStockData isInitial s) e ws_set_now 0 = (r, s1, tr)"
    by (metis prod_cases3)
  have A: "(\<forall>i. \<not> ws_data (get_reply e i)) \<longrightarrow>
      (case run (fetchAndBroadcastStockData isInitial s) e ws_set_now 0 of
         (r, s1, tr) \<Rightarrow>
           (r = NoToken \<or> r = NoData) \<and> latestStockMap s1 = latestStockMap s \<and>
           outbox s1 = outbox s \<and> clients s1 = clients s)"
  proof
    assume "\<forall>i. \<not> ws_data (get_reply e i)"
    from cycle_without_data[OF this R]
    have X: "(r = NoToken \<or> r = NoData) \<and> latestStockMap s1 = latestStockMap s \<and>
           outbox s1 = outbox s \<and> clients s1 = clients s"
      by (simp add: ws_frame_def)
    show "case run (fetchAndBroadcastStockData isInitial s) e ws_set_now 0 of
         (r, s1, tr) \<Rightarrow>
           (r = NoToken \<or> r = NoData) \<and> latestStockMap s1 = latestStockMap s \<and>
           outbox s1 = outbox s \<and> clients s1 = clients s"
      unfolding R prod.case by (rule X)
  qed
  have B: "\<not> ws_data_event ev \<longrightarrow>
      latestStockMap (fst (ws_step ev (ws_steps evs (s, [])))) =
        latestStockMap (fst (ws_steps evs (s, [])))"
    using ws_changes_store[OF ws_reachable_changes[of ev evs s]] by auto
  have C: "None \<in> set items \<longrightarrow> publish isInitial items s = (Rejected, s)"
    by (simp add: publish_null)
  obtain r2 s2 tr2 where R2: "run (fetchStockData depth sio) ea sio_set_now 0 = (r2, s2, tr2)"
    by (metis prod_cases3)
  have D: "(\<forall>i. \<not> sio_data (get_reply ea i)) \<longrightarrow>
      (case run (fetchStockData depth sio) ea sio_set_now 0 of
         (r, s1, tr) \<Rightarrow> (\<forall>xs. r \<noteq> Data xs) \<and> sio_frame sio s1)"
  proof
    assume "\<forall>i. \<not> sio_data (get_reply ea i)"
    from fetch_without_data[OF this R2]
    have X: "(\<forall>xs. r2 \<noteq> Data xs) \<and> sio_frame sio s2" .
    show "case run (fetchStockData depth sio) ea sio_set_now 0 of
         (r, s1, tr) \<Rightarrow> (\<forall>xs. r \<noteq> Data xs) \<and> sio_frame sio s1"
      unfolding R2 prod.case by (rule X)
  qed
  have E: "\<not> sio_data_event sev \<longrightarrow>
      sio_frame (fst (sio_steps depth sevs (sio, [])))
        (fst (sio_step depth sev (sio_steps depth sevs (sio, []))))"
    using sio_changes_frame[OF sio_reachable_changes[of sev depth sevs sio]] by blast
  have F: "stock_array b = Some (map Some objs @ None # rest) \<longrightarrow>
      store_updates b sio =
        (case process_updates (map Some objs) (previousStockData sio, prototype sio, []) of
           (fin, own1, proto1, ups) \<Rightarrow>
             (Null (TypeError ''dseCompanyCode''),
              io_emit (FetchStatusError (TypeError ''dseCompanyCode'') (sio_now sio))
                (sio\<lparr>previousStockData := own1, prototype := proto1\<rparr>)))"
    by (intro impI) (rule store_updates_null)
  show ?thesis
    by (intro conjI) (rule A B C D E F)+
qed

lemma run_ws_no_data:
  "run (fetchAndBroadcastStockData False ws_with_AAA) env_timeouts ws_set_now 0 =
     (NoData, ws_with_AAA\<lparr>now := 8\<rparr>,
      [Fetched (SString ''token'') (GetError ETIMEDOUT None), Slept 5000,
       Fetched (SString ''token'') (GetError ETIMEDOUT None), Slept 10000,
       Fetched (SString ''token'') (GetError ETIMEDOUT None), Slept 15000,
       Fetched (SString ''token'') (GetError ETIMEDOUT None), Slept 20000,
       Fetched (SString ''token'') (GetError ETIMEDOUT None)])"
  by (simp add: fetchAndBroadcastStockData_def getAllStockCompanies_def
      getAllStockCompanies_from.simps env_timeouts_def ws_with_AAA_def run_abind
      transient_auth_def ws_set_now_def)

lemma run_sio_null_body:
  "fst (run (fetchStockData 1 sio_with_AAA) env_timeouts_then_data sio_set_now 0) =
     Null (TypeError ''result'')"
  by (simp add: getAuthToken_def sio_with_AAA_def env_timeouts_then_data_def
      run_abind store_updates_def fetch_failed_def split: prod.splits)

theorem failed_cycle_changes_no_store_witness:
  "(case run (fetchAndBroadcastStockData False ws_with_AAA) env_timeouts ws_set_now 0 of
      (r, s1, tr) \<Rightarrow> r = NoData \<and> latestStockMap s1 = [(SString ''AAA'', mapItem stock_AAA)]) \<and>
   latestStockMap (fst (ws_step CronTick (ws_steps [] (ws_with_AAA, [])))) =
     [(SString ''AAA'', mapItem stock_AAA)] \<and>
   publish False [Some stock_BBB, None] ws_with_AAA = (Rejected, ws_with_AAA) \<and>
   (case run (fetchStockData 1 sio_with_AAA) env_timeouts_then_data sio_set_now 0 of
      (r, s1, tr) \<Rightarrow> r = Null (TypeError ''result'') \<and>
         previousStockData s1 = [(''AAA'', stock_AAA)] \<and> lastFetchTime s1 = Some 1) \<and>
   lastFetchTime (fst (sio_step 1 FetchCall (sio_steps 1 [] (sio_with_AAA, [])))) = Some 1 \<and>
   fst (store_updates (BArray [Some stock_BBB, None, Some stock_CCC]) sio_with_AAA) =
     Null (TypeError ''dseCompanyCode'')"
proof -
  note th = failed_cycle_changes_no_store[where isInitial=False and s=ws_with_AAA
      and e=env_timeouts and ev=CronTick and evs="[]" and items="[Some stock_BBB, None]"
      and depth=1 and sio=sio_with_AAA and ea=env_timeouts_then_data and sev=FetchCall
      and sevs="[]" and b="BArray [Some stock_BBB, None, Some stock_CCC]"
      and objs="[stock_BBB]" and rest="[Some stock_CCC]"]
  have h1: "\<forall>i. \<not> ws_data (get_reply env_timeouts i)" by (simp add: env_timeouts_def)
  have h2: "\<not> ws_data_event CronTick" by simp
  have h3: "None \<in> set [Some stock_BBB, None]" by simp
  have h4: "\<forall>i. \<not> sio_data (get_reply env_timeouts_then_data i)"
    by (simp add: env_timeouts_then_data_def)
  have h5: "\<not> sio_data_event FetchCall" by simp
  have h6: "stock_array (BArray [Some stock_BBB, None, Some stock_CCC]) =
      Some (map Some [stock_BBB] @ None # [Some stock_CCC])" by simp
  from th[THEN conjunct1, THEN mp, OF h1] run_ws_no_data
  have a: "case run (fetchAndBroadcastStockData False ws_with_AAA) env_timeouts ws_set_now 0 of
      (r, s1, tr) \<Rightarrow> r = NoData \<and> latestStockMap s1 = [(SString ''AAA'', mapItem stock_AAA)]"
    by (simp add: ws_with_AAA_def)
  from th[THEN conjunct2, THEN conjunct1] h2
  have b: "latestStockMap (fst (ws_step CronTick (ws_steps [] (ws_with_AAA, [])))) =
     [(SString ''AAA'', mapItem stock_AAA)]"
    by (simp add: ws_steps_def ws_with_AAA_def)
  from th[THEN conjunct2, THEN conjunct2, THEN conjunct1] h3
  have c: "publish False [Some stock_BBB, None] ws_with_AAA = (Rejected, ws_with_AAA)"
    by blast
  from th[THEN conjunct2, THEN conjunct2, THEN conjunct2, THEN conjunct1, THEN mp, OF h4]
  have "case run (fetchStockData 1 sio_with_AAA) env_timeouts_then_data sio_set_now 0 of
         (r, s1, tr) \<Rightarrow> (\<forall>xs. r \<noteq> Data xs) \<and> sio_frame sio_with_AAA s1" .
  with run_sio_null_body
  have d: "case run (fetchStockData 1 sio_with_AAA) env_timeouts_then_data sio_set_now 0 of
      (r, s1, tr) \<Rightarrow> r = Null (TypeError ''result'') \<and>
         previousStockData s1 = [(''AAA'', stock_AAA)] \<and> lastFetchTime s1 = Some 1"
    by (auto simp add: sio_frame_def sio_with_AAA_def split: prod.splits)
  from th[THEN conjunct2, THEN conjunct2, THEN conjunct2, THEN conjunct2, THEN conjunct1] h5
  have "sio_frame (fst (sio_steps 1 [] (sio_with_AAA, [])))
        (fst (sio_step 1 FetchCall (sio_steps 1 [] (sio_with_AAA, []))))"
    by blast
  then have e: "lastFetchTime (fst (sio_step 1 FetchCall (sio_steps 1 [] (sio_with_AAA, [])))) =
      Some 1"
    by (simp add: sio_frame_def sio_steps_def sio_with_AAA_def)
  from th[THEN conjunct2, THEN conjunct2, THEN conjunct2, THEN conjunct2, THEN conjunct2] h6
  have "store_updates (BArray [Some stock_BBB, None, Some stock_CCC]) sio_with_AAA =
        (case process_updates (map Some [stock_BBB])
            (previousStockData sio_with_AAA, prototype sio_with_AAA, []) of
           (fin, own1, proto1, ups) \<Rightarrow>
             (Null (TypeError ''dseCompanyCode''),
              io_emit (FetchStatusError (TypeError ''dseCompanyCode'') (sio_now sio_with_AAA))
                (sio_with_AAA\<lparr>previousStockData := own1, prototype := proto1\<rparr>)))"
    by blast
  then have f: "fst (store_updates (BArray [Some stock_BBB, None, Some stock_CCC]) sio_with_AAA) =
     Null (TypeError ''dseCompanyCode'')"
    by (simp split: prod.splits)
  from a b c d e f show ?thesis by blast
qed


section \<open>How the stores are written\<close>

lemma assign_all_Cons:
  "assign_all (stk # ups) (own, proto) =
     assign_all ups (set_property own proto (property_name (stockCode stk)) stk)"
  by (simp add: assign_all_def)

lemma assign_all_append:
  "assign_all (ups @ new) st = assign_all new (assign_all ups st)"
  by (simp add: assign_all_def)

lemma process_stock_assign:
  "\<exists>new. process_stock stk (own, proto, ups) =
     (fst (assign_all new (own, proto)), snd (assign_all new (own, proto)), ups @ new) \<and>
     (new = [] \<or> new = [stk])"
proof (cases "process_stock stk (own, proto, ups) = (own, proto, ups)")
  case True
  then have "process_stock stk (own, proto, ups) =
     (fst (assign_all [] (own, proto)), snd (assign_all [] (own, proto)), ups @ [])"
    by (simp add: assign_all_def)
  then show ?thesis by blast
next
  case False
  then have "process_stock stk (own, proto, ups) =
     (fst (assign_all [stk] (own, proto)), snd (assign_all [stk] (own, proto)), ups @ [stk])"
    by (auto simp add: process_stock_def Let_def assign_all_def split: if_splits prod.splits option.splits)
  then show ?thesis by blast
qed

lemma process_updates_assign:
  "\<exists>new. snd (process_updates xs (own, proto, ups)) =
     (fst (assign_all new (own, proto)), snd (assign_all new (own, proto)), ups @ new)"
proof (induction xs arbitrary: own proto ups)
  case Nil
  have "snd (process_updates [] (own, proto, ups)) =
     (fst (assign_all [] (own, proto)), snd (assign_all [] (own, proto)), ups @ [])"
    by (simp add: assign_all_def)
  then show ?case by (rule exI)
next
  case (Cons x xs)
  show ?case
  proof (cases x)
    case None
    have "snd (process_updates (None # xs) (own, proto, ups)) =
     (fst (assign_all [] (own, proto)), snd (assign_all [] (own, proto)), ups @ [])"
      by (simp add: assign_all_def)
    with None show ?thesis by blast
  next
    case (Some stk)
    from process_stock_assign[of stk own proto ups] obtain n1 where
      P: "process_stock stk (own, proto, ups) =
        (fst (assign_all n1 (own, proto)), snd (assign_all n1 (own, proto)), ups @ n1)"
      by blast
    from Cons.IH[of "fst (assign_all n1 (own, proto))" "snd (assign_all n1 (own, proto))"
        "ups @ n1"]
    obtain n2 where
      Q: "snd (process_updates xs (fst (assign_all n1 (own, proto)),
            snd (assign_all n1 (own, proto)), ups @ n1)) =
        (fst (assign_all n2 (assign_all n1 (own, proto))),
         snd (assign_all n2 (assign_all n1 (own, proto))), (ups @ n1) @ n2)"
      by auto
    from Some P Q have "snd (process_updates (x # xs) (own, proto, ups)) =
        (fst (assign_all (n1 @ n2) (own, proto)), snd (assign_all (n1 @ n2) (own, proto)),
         ups @ (n1 @ n2))"
      by (simp add: assign_all_append)
    then show ?thesis by (rule exI)
  qed
qed

lemma process_updates_store:
  "case process_updates xs (own, proto, []) of
     (fin, own1, proto1, ups) \<Rightarrow> (own1, proto1) = assign_all ups (own, proto)"
proof -
  from process_updates_assign[of xs own proto "[]"] obtain new where
    "snd (process_updates xs (own, proto, [])) =
     (fst (assign_all new (own, proto)), snd (assign_all new (own, proto)), [] @ new)"
    by blast
  then show ?thesis by (auto split: prod.splits)
qed

lemma store_updates_store:
  assumes "stock_array b = Some xs"
  shows "(previousStockData (snd (store_updates b s)), prototype (snd (store_updates b s))) =
     (case process_updates xs (previousStockData s, prototype s, []) of
        (fin, own, proto, ups) \<Rightarrow> (own, proto))"
proof -
  obtain fin own1 proto1 ups where
    P: "process_updates xs (previousStockData s, prototype s, []) = (fin, own1, proto1, ups)"
    by (metis prod_cases4)
  show ?thesis
  proof (cases fin)
    case False
    with assms P show ?thesis
      by (simp add: store_updates_def fetch_failed_def io_emit_def)
  next
    case True
    with assms P show ?thesis
      by (cases "ups = []") (simp_all add: store_updates_def Let_def io_emit_def)
  qed
qed

lemma sio_effect_store:
  assumes "sio_effect g s0 s"
  shows "(previousStockData s, prototype s) = (previousStockData s0, prototype s0) \<or>
    (\<exists>b xs. g = Answered (GetDone (GetResponse 200 b)) \<and> stock_array b = Some xs \<and>
       (previousStockData s, prototype s) =
         (case process_updates xs (previousStockData s0, prototype s0, []) of
            (fin, own, proto, ups) \<Rightarrow> (own, proto)))"
  using assms unfolding sio_effect_def
proof
  assume "sio_quiet s0 s"
  then show ?thesis by (simp add: sio_quiet_def sio_frame_def)
next
  assume "\<exists>b. g = Answered (GetDone (GetResponse 200 b)) \<and> s = snd (store_updates b s0)"
  then obtain b where g: "g = Answered (GetDone (GetResponse 200 b))"
    and s: "s = snd (store_updates b s0)" by blast
  show ?thesis
  proof (cases "stock_array b")
    case None
    with s show ?thesis by (simp add: store_updates_def fetch_failed_def io_emit_def)
  next
    case (Some xs)
    from store_updates_store[OF Some, of s0] s g Some show ?thesis by auto
  qed
qed

lemma sio_changes_store:
  assumes "sio_changes ev s0 s"
  shows "(previousStockData s, prototype s) = (previousStockData s0, prototype s0) \<or>
    (\<exists>n b xs. ev = SioOutcome n (GetDone (GetResponse 200 b)) \<and> stock_array b = Some xs \<and>
       (previousStockData s, prototype s) =
         (case process_updates xs (previousStockData s0, prototype s0, []) of
            (fin, own, proto, ups) \<Rightarrow> (own, proto)))"
proof (cases ev)
  case (SioOutcome n out)
  with assms have "sio_effect (Answered out) s0 s" by simp
  from sio_effect_store[OF this] SioOutcome show ?thesis by auto
qed (use assms in \<open>simp_all add: sio_quiet_def sio_frame_def sio_set_now_def\<close>)

text \<open>
  C5, as stated, fails on the socket.io server: \<^verbatim>\<open>fetchStockData\<close> writes its store key by
  key while it reads the fetched array. Here the array has a null element after the first
  record: the call fails, and the store holds the old record, the first new record and not
  the last one.
\<close>

theorem store_in_place_counterexample:
  "case run (fetchStockData 1 sio_with_AAA) env_null_element sio_set_now 0 of
     (r, s1, tr) \<Rightarrow> r = Null (TypeError ''dseCompanyCode'') \<and>
       previousStockData s1 = [(''AAA'', stock_AAA), (''BBB'', stock_BBB)]"
  by (simp add: getAuthToken_def sio_with_AAA_def env_null_element_def run_abind
      store_updates_def fetch_failed_def process_stock_def stockCode_def stock_BBB_def
      get_property_def inherited_def object_prototype_names_def set_property_def
      own_set_def array_index_def digit_of_def sio_set_now_def io_emit_def)

text \<open>
  C5, amended. The WebSocket server only ever replaces \<^verbatim>\<open>latestStockMap\<close> as a whole:
  whatever is in flight, an event leaves it as it is, or, being the arrival of a data
  response with a truthy body, replaces it by the mapping built from the records of that
  response alone; a broadcast leaves it as it is. The socket.io server updates
  \<^verbatim>\<open>previousStockData\<close> in place: whatever is in flight, an event leaves the object and
  its prototype as they are, or, being the arrival of a data response of status 200, leaves
  them as the scan of the array of that response does. The scan assigns the records that
  it reports, under their codes, one after the other; a null element stops it with the
  assignments made so far. An assignment writes the one property of that name and leaves
  every other, or, under the name \<^verbatim>\<open>__proto__\<close>, makes the record the prototype.
\<close>

theorem store_swapped_or_updated_in_place:
  "(latestStockMap (fst (ws_step ev (ws_steps evs (s, [])))) =
      latestStockMap (fst (ws_steps evs (s, []))) \<or>
    (\<exists>n st b objs. ev = Outcome n (GetDone (GetResponse st b)) \<and> body_truthy b \<and>
       as_array b = map Some objs \<and>
       latestStockMap (fst (ws_step ev (ws_steps evs (s, [])))) = build_map objs [])) \<and>
   latestStockMap (broadcast m s) = latestStockMap s \<and>
   ((previousStockData (fst (sio_step depth sev (sio_steps depth sevs (sio, [])))),
     prototype (fst (sio_step depth sev (sio_steps depth sevs (sio, []))))) =
      (previousStockData (fst (sio_steps depth sevs (sio, []))),
       prototype (fst (sio_steps depth sevs (sio, [])))) \<or>
    (\<exists>n b xs. sev = SioOutcome n (GetDone (GetResponse 200 b)) \<and> stock_array b = Some xs \<and>
       (previousStockData (fst (sio_step depth sev (sio_steps depth sevs (sio, [])))),
        prototype (fst (sio_step depth sev (sio_steps depth sevs (sio, []))))) =
         (case process_updates xs
                 (previousStockData (fst (sio_steps depth sevs (sio, []))),
                  prototype (fst (sio_steps depth sevs (sio, []))), []) of
            (fin, own, proto, ups) \<Rightarrow> (own, proto)))) \<and>
   (case process_updates ys (own, proto, []) of
      (fin, own1, proto1, ups) \<Rightarrow> (own1, proto1) = assign_all ups (own, proto)) \<and>
   process_updates (map Some objs @ None # rest) acc =
     (False, snd (process_updates (map Some objs) acc)) \<and>
   (set_property own proto k v = (own_set k v own, proto) \<or>
    set_property own proto k v = (own, Some v)) \<and>
   map_of (own_set k v own) = (map_of own)(k \<mapsto> v)"
proof -
  note A = ws_changes_store[OF ws_reachable_changes[of ev evs s]]
  have B: "latestStockMap (broadcast m s) = latestStockMap s" by simp
  note C = sio_changes_store[OF sio_reachable_changes[of sev depth sevs sio]]
  note D = process_updates_store[where xs=ys and own=own and proto=proto]
  note E = process_updates_prefix[where objs=objs and rest=rest and acc=acc]
  have F: "set_property own proto k v = (own_set k v own, proto) \<or>
    set_property own proto k v = (own, Some v)"
    by (simp add: set_property_def)
  note G = map_of_own_set[where k=k and v=v and own=own]
  show ?thesis
    by (intro conjI) (rule A B C D E F G)+
qed


section \<open>The registry\<close>

lemma ws_effect_fields:
  assumes "ws_effect g s0 s"
  shows "clients s = clients s0" and "readyState s = readyState s0"
    and "c \<notin> set (clients s0) \<or> readyState s0 c \<noteq> OPEN \<Longrightarrow> outbox s c = outbox s0 c"
proof -
  have "clients s = clients s0 \<and> readyState s = readyState s0 \<and>
    (c \<notin> set (clients s0) \<or> readyState s0 c \<noteq> OPEN \<longrightarrow> outbox s c = outbox s0 c)"
    using assms unfolding ws_effect_def
  proof
    assume "ws_quiet s0 s"
    from ws_quiet_fields[OF this] show ?thesis by simp
  next
    assume "\<exists>st b isInitial. g = Answered (GetDone (GetResponse st b)) \<and> body_truthy b \<and>
        s = snd (publish isInitial (as_array b) s0)"
    then obtain b isInitial where s: "s = snd (publish isInitial (as_array b) s0)" by blast
    obtain r where P: "publish isInitial (as_array b) s0 = (r, s)"
      using s by (cases "publish isInitial (as_array b) s0") simp
    from publish_fields[OF P] show ?thesis by blast
  qed
  then show "clients s = clients s0" and "readyState s = readyState s0"
    and "c \<notin> set (clients s0) \<or> readyState s0 c \<noteq> OPEN \<Longrightarrow> outbox s c = outbox s0 c"
    by blast+
qed

lemma ws_changes_registry:
  assumes "ws_changes ev s0 s"
  shows "clients s = registry_after ev (clients s0)"
proof (cases ev)
  case (Connection c)
  with assms have "ws_quiet (on_connection c s0) s" by simp
  from ws_quiet_fields(2)[OF this] Connection show ?thesis
    by (simp add: on_connection_def Let_def)
next
  case (Outcome n out)
  with assms have "ws_effect (Answered out) s0 s" by simp
  from ws_effect_fields(1)[OF this] Outcome show ?thesis by simp
next
  case CronTick
  with assms ws_quiet_fields(2)[of s0 s] show ?thesis by simp
next
  case StartupTimer
  with assms ws_quiet_fields(2)[of s0 s] show ?thesis by simp
next
  case ApiAuth
  with assms ws_quiet_fields(2)[of s0 s] show ?thesis by simp
next
  case ApiStock
  with assms ws_quiet_fields(2)[of s0 s] show ?thesis by simp
qed (use assms in \<open>simp_all add: on_close_def on_error_def ws_set_now_def\<close>)

lemma ws_changes_outbox:
  assumes "ws_changes ev s0 s" and "ev \<noteq> Connection c"
    and "c \<notin> set (clients s0) \<or> readyState s0 c \<noteq> OPEN"
  shows "outbox s c = outbox s0 c"
proof (cases ev)
  case (Connection d)
  with assms(1) have "ws_quiet (on_connection d s0) s" by simp
  from ws_quiet_fields(4)[OF this] Connection assms(2) show ?thesis
    by (simp add: on_connection_def Let_def)
next
  case (Outcome n out)
  with assms(1) have "ws_effect (Answered out) s0 s" by simp
  from ws_effect_fields(3)[OF this assms(3)] show ?thesis .
next
  case CronTick
  with assms ws_quiet_fields(4)[of s0 s] show ?thesis by simp
next
  case StartupTimer
  with assms ws_quiet_fields(4)[of s0 s] show ?thesis by simp
next
  case ApiAuth
  with assms ws_quiet_fields(4)[of s0 s] show ?thesis by simp
next
  case ApiStock
  with assms ws_quiet_fields(4)[of s0 s] show ?thesis by simp
qed (use assms in \<open>simp_all add: on_close_def on_error_def ws_set_now_def\<close>)

lemma ws_steps_snoc: "ws_steps (evs @ [ev]) w = ws_step ev (ws_steps evs w)"
  by (simp add: ws_steps_def)

lemma registry_after_distinct: "distinct cs \<Longrightarrow> distinct (registry_after ev cs)"
  by (cases ev) (simp_all add: distinct_removeAll)

lemma registry_distinct:
  "distinct (clients s) \<Longrightarrow> distinct (clients (fst (ws_steps evs (s, []))))"
proof (induction evs rule: rev_induct)
  case Nil
  then show ?case by (simp add: ws_steps_def)
next
  case (snoc ev evs)
  from ws_changes_registry[OF ws_reachable_changes[of ev evs s]] snoc
  show ?case by (simp add: ws_steps_snoc registry_after_distinct)
qed

text \<open>
  C7, as stated, fails on the WebSocket server: a broadcast skips a registered socket that
  is not open and leaves it in the registry.
\<close>

theorem closed_socket_counterexample:
  "readyState ws_with_AAA 1 = CLOSED \<and> 1 \<in> set (clients ws_with_AAA) \<and>
   clients (broadcast sample_message ws_with_AAA) = [1, 2] \<and>
   outbox (broadcast sample_message ws_with_AAA) 1 = [] \<and>
   outbox (broadcast sample_message ws_with_AAA) 2 = [sample_message]"
  by (simp add: broadcast_def ws_with_AAA_def send_def)

text \<open>
  C7, amended. A broadcast never changes the registry: it sends the message to every
  registered socket that is open, once, and skips the others, which stay registered.
  Whatever is in flight, an event changes the registry only as follows: a connection adds
  the connecting socket, and the close handler and the error handler of a socket remove
  that socket and no other; no cycle, route, answer or timer changes the registry, which
  never holds a socket twice. A socket that is not registered or not open gets nothing
  from any event other than its own connection.
\<close>

theorem broadcast_and_removal:
  "clients (broadcast m s) = clients s \<and>
   (distinct (clients s) \<longrightarrow>
      (\<forall>c. outbox (broadcast m s) c =
         (if c \<in> set (clients s) \<and> readyState s c = OPEN then outbox s c @ [m]
          else outbox s c))) \<and>
   clients (fst (ws_step ev (ws_steps evs (s, [])))) =
     registry_after ev (clients (fst (ws_steps evs (s, [])))) \<and>
   (ev \<noteq> Connection c \<and>
    (c \<notin> set (clients (fst (ws_steps evs (s, [])))) \<or>
     readyState (fst (ws_steps evs (s, []))) c \<noteq> OPEN) \<longrightarrow>
      outbox (fst (ws_step ev (ws_steps evs (s, [])))) c =
        outbox (fst (ws_steps evs (s, []))) c) \<and>
   (distinct (clients s) \<longrightarrow> distinct (clients (fst (ws_steps evs (s, [])))))"
proof -
  have A: "clients (broadcast m s) = clients s" by simp
  have B: "distinct (clients s) \<longrightarrow>
      (\<forall>c. outbox (broadcast m s) c =
         (if c \<in> set (clients s) \<and> readyState s c = OPEN then outbox s c @ [m]
          else outbox s c))"
    by (simp add: broadcast_outbox)
  note C = ws_changes_registry[OF ws_reachable_changes[of ev evs s]]
  have D: "ev \<noteq> Connection c \<and>
    (c \<notin> set (clients (fst (ws_steps evs (s, [])))) \<or>
     readyState (fst (ws_steps evs (s, []))) c \<noteq> OPEN) \<longrightarrow>
      outbox (fst (ws_step ev (ws_steps evs (s, [])))) c =
        outbox (fst (ws_steps evs (s, []))) c"
    using ws_changes_outbox[OF ws_reachable_changes[of ev evs s], of c] by blast
  have E: "distinct (clients s) \<longrightarrow> distinct (clients (fst (ws_steps evs (s, []))))"
    by (simp add: registry_distinct)
  show ?thesis
    by (intro conjI) (rule A B C D E)+
qed

theorem broadcast_and_removal_witness:
  "distinct (clients ws_with_AAA) \<and>
   outbox (broadcast sample_message (on_error 2 ws_with_AAA)) 2 = [] \<and>
   outbox (broadcast sample_message (on_close 1 ws_with_AAA)) 2 = [sample_message] \<and>
   clients (fst (ws_step (Close 1) (ws_steps [CronTick] (ws_with_AAA, [])))) = [2] \<and>
   clients (fst (ws_step (Outcome 0 (GetDone (GetResponse 200 (BArray [Some stock_BBB]))))
       (ws_steps [CronTick] (ws_with_AAA, [])))) = [1, 2] \<and>
   outbox (fst (ws_step (Outcome 0 (GetDone (GetResponse 200 (BArray [Some stock_BBB]))))
       (ws_steps [CronTick] (ws_with_AAA, [])))) 1 = []"
proof -
  let ?W = "ws_steps [CronTick] (ws_with_AAA, [])"
  let ?ev = "Outcome 0 (GetDone (GetResponse 200 (BArray [Some stock_BBB])))"
  have d: "distinct (clients ws_with_AAA)" by (simp add: ws_with_AAA_def)
  have d1: "distinct (clients (on_error 2 ws_with_AAA))" "distinct (clients (on_close 1 ws_with_AAA))"
    by (simp_all add: ws_with_AAA_def on_error_def on_close_def)
  have W: "fst ?W = ws_with_AAA"
    by (simp add: ws_steps_def start_def fetchAndBroadcastStockData_def getAllStockCompanies_def
        getAllStockCompanies_from.simps[of "Suc 0"] ws_with_AAA_def)
  have h: "?ev \<noteq> Connection 1 \<and>
    (1 \<notin> set (clients (fst ?W)) \<or> readyState (fst ?W) 1 \<noteq> OPEN)"
    unfolding W by (simp add: ws_with_AAA_def)
  from broadcast_and_removal[of sample_message "on_error 2 ws_with_AAA"] d1(1)
  have a: "outbox (broadcast sample_message (on_error 2 ws_with_AAA)) 2 = []"
    by (simp add: ws_with_AAA_def on_error_def)
  from broadcast_and_removal[of sample_message "on_close 1 ws_with_AAA"] d1(2)
  have b: "outbox (broadcast sample_message (on_close 1 ws_with_AAA)) 2 = [sample_message]"
    by (simp add: ws_with_AAA_def on_close_def)
  from broadcast_and_removal[where s=ws_with_AAA and ev="Close 1" and evs="[CronTick]"]
  have "clients (fst (ws_step (Close 1) ?W)) = registry_after (Close 1) (clients (fst ?W))"
    by blast
  then have c: "clients (fst (ws_step (Close 1) ?W)) = [2]"
    unfolding W by (simp add: ws_with_AAA_def)
  note th = broadcast_and_removal[where s=ws_with_AAA and ev="?ev" and evs="[CronTick]" and c=1]
  from th have "clients (fst (ws_step ?ev ?W)) = registry_after ?ev (clients (fst ?W))"
    by blast
  then have e: "clients (fst (ws_step ?ev ?W)) = [1, 2]"
    unfolding W by (simp add: ws_with_AAA_def)
  from th h have "outbox (fst (ws_step ?ev ?W)) 1 = outbox (fst ?W) 1" by blast
  then have f: "outbox (fst (ws_step ?ev ?W)) 1 = []"
    unfolding W by (simp add: ws_with_AAA_def)
  from d a b c e f show ?thesis by blast
qed


section \<open>Calls in flight\<close>

lemma in_flight_suspend [simp]:
  "in_flight (suspend (AwaitPost p s k) waiting) = map request_of waiting @ [PostRequest p]"
  "in_flight (suspend (AwaitGet t s kg) waiting) = map request_of waiting @ [GetRequest t]"
  "fst (suspend (AwaitPost p s k) waiting) = s"
  "fst (suspend (AwaitGet t s kg) waiting) = s"
  by (simp_all add: in_flight_def)

lemma start_getIDLCAuthToken:
  "in_flight (start (getIDLCAuthToken 5) w) = in_flight w @ [PostRequest Data_EmailID_Password] \<and>
   fst (start (getIDLCAuthToken 5) w) = fst w"
  by (simp add: start_def getIDLCAuthToken_def getIDLCAuthToken_from.simps[of "Suc 0"] in_flight_def)

lemma start_getAuthToken:
  "\<not> truthy (sio_authToken (fst v)) \<Longrightarrow>
   in_flight (start (getAuthToken forceRefresh) v) = in_flight v @ [PostRequest EmailID_Password] \<and>
   fst (start (getAuthToken forceRefresh) v) = fst v"
  by (simp add: start_def getAuthToken_def payloadFormats_def in_flight_def)

lemma start_cycle:
  "in_flight (start (fetchAndBroadcastStockData isInitial) w) =
     in_flight w @
       [if truthy (authToken (fst w)) then GetRequest (authToken (fst w))
        else PostRequest Data_EmailID_Password] \<and>
   fst (start (fetchAndBroadcastStockData isInitial) w) = fst w"
  by (simp add: start_def fetchAndBroadcastStockData_def getAllStockCompanies_def
      getAllStockCompanies_from.simps[of "Suc 0"] getIDLCAuthToken_def
      getIDLCAuthToken_from.simps[of "Suc 0"] in_flight_def)

lemma callers_ws:
  "in_flight ((start (getIDLCAuthToken 5) ^^ n) w) =
     in_flight w @ replicate n (PostRequest Data_EmailID_Password) \<and>
   fst ((start (getIDLCAuthToken 5) ^^ n) w) = fst w"
proof (induction n)
  case 0
  show ?case by simp
next
  case (Suc n)
  with start_getIDLCAuthToken[of "(start (getIDLCAuthToken 5) ^^ n) w"] show ?case
    by (simp add: replicate_append_same)
qed

lemma callers_sio:
  "\<not> truthy (sio_authToken (fst v)) \<Longrightarrow>
   in_flight ((start (getAuthToken forceRefresh) ^^ n) v) =
     in_flight v @ replicate n (PostRequest EmailID_Password) \<and>
   fst ((start (getAuthToken forceRefresh) ^^ n) v) = fst v"
proof (induction n)
  case 0
  show ?case by simp
next
  case (Suc n)
  then have "\<not> truthy (sio_authToken (fst ((start (getAuthToken forceRefresh) ^^ n) v)))"
    by simp
  from start_getAuthToken[OF this] Suc show ?case
    by (simp add: replicate_append_same)
qed

lemma ticks:
  "in_flight (ws_steps (replicate n CronTick) w) =
     in_flight w @
       replicate n (if truthy (authToken (fst w)) then GetRequest (authToken (fst w))
                    else PostRequest Data_EmailID_Password) \<and>
   fst (ws_steps (replicate n CronTick) w) = fst w"
proof (induction n arbitrary: w)
  case 0
  show ?case by (simp add: ws_steps_def)
next
  case (Suc n)
  from Suc[of "ws_step CronTick w"] start_cycle[of False w] show ?case
    by (simp add: ws_steps_def replicate_append_same)
qed

text \<open>The world after \<open>n\<close> calls of a function that awaits a post at once, and the
  arrival of the answer to the \<open>i\<close>-th of them.\<close>

lemma starts_world:
  assumes "f s = AwaitPost p s K"
  shows "(start f ^^ n) (s, waiting) =
     (s, waiting @ replicate n (OnPost p (\<lambda>r s1. abind (K r s1) (\<lambda>a s. Return () s))))"
proof (induction n)
  case 0
  show ?case by simp
next
  case (Suc n)
  then show ?case
    by (simp add: start_def assms replicate_append_same)
qed

lemma others_replicate:
  "i < n \<Longrightarrow> take i (replicate n x) @ drop (Suc i) (replicate n x) = replicate (n - 1) x"
proof -
  assume "i < n"
  then have "i + (n - Suc i) = n - 1" by simp
  with \<open>i < n\<close> show ?thesis
    by (simp add: min_def replicate_add[symmetric] del: replicate_add)
qed

lemma resume_replicate:
  assumes "i < n"
  shows "resume i (PostDone r) (s, replicate n (OnPost p K)) =
     suspend (K r s) (replicate (n - 1) (OnPost p K))"
proof -
  from assms have "resume i (PostDone r) (s, replicate n (OnPost p K)) =
      suspend (K r s)
        (take i (replicate n (OnPost p K)) @ drop (Suc i) (replicate n (OnPost p K)))"
    by (simp add: resume_def del: take_replicate drop_replicate)
  with others_replicate[OF assms, of "OnPost p K"] show ?thesis by simp
qed

lemma in_flight_replicate:
  "in_flight (s, replicate n (OnPost p K)) = replicate n (PostRequest p)"
  by (simp add: in_flight_def)

lemma answer_ws:
  assumes "i < n"
  shows "resume i (PostDone r) ((start (getIDLCAuthToken 5) ^^ n) (s, [])) =
     (case r of
        PostResponse st b \<Rightarrow>
          (case resultCode b of
             None \<Rightarrow> (s, snd ((start (getIDLCAuthToken 5) ^^ (n - 1)) (s, [])))
           | Some c \<Rightarrow>
               if c = ''200'' then
                 (case resultData b of
                    None \<Rightarrow> (s, snd ((start (getIDLCAuthToken 5) ^^ (n - 1)) (s, [])))
                  | Some t \<Rightarrow>
                      (s\<lparr>authToken := t\<rparr>, snd ((start (getIDLCAuthToken 5) ^^ (n - 1)) (s, []))))
               else suspend (AwaitSleep 5000 s
                      (\<lambda>s2. abind (getIDLCAuthToken_from 2 5 s2) (\<lambda>a s. Return () s)))
                    (snd ((start (getIDLCAuthToken 5) ^^ (n - 1)) (s, []))))
      | PostError c \<Rightarrow>
          if transient_auth c then
            suspend (AwaitSleep 5000 s
                (\<lambda>s2. abind (getIDLCAuthToken_from 2 5 s2) (\<lambda>a s. Return () s)))
              (snd ((start (getIDLCAuthToken 5) ^^ (n - 1)) (s, [])))
          else (s, snd ((start (getIDLCAuthToken 5) ^^ (n - 1)) (s, []))))"
proof -
  have f: "getIDLCAuthToken 5 s0 = AwaitPost Data_EmailID_Password s0
     (\<lambda>r s1.
          case r of
            PostResponse st b \<Rightarrow>
              (case resultCode b of
                 None \<Rightarrow> Return SNull s1
               | Some c \<Rightarrow>
                   if c = ''200'' then
                     (case resultData b of
                        None \<Rightarrow> Return SNull s1
                      | Some t \<Rightarrow> Return t (s1\<lparr>authToken := t\<rparr>))
                   else AwaitSleep 5000 s1 (\<lambda>s2. getIDLCAuthToken_from 2 5 s2))
          | PostError c \<Rightarrow>
              if transient_auth c then AwaitSleep 5000 s1 (\<lambda>s2. getIDLCAuthToken_from 2 5 s2)
              else Return SNull s1)" for s0
    by (auto simp add: getIDLCAuthToken_def getIDLCAuthToken_from.simps[of "Suc 0"]
        numeral_2_eq_2 fun_eq_iff split: post_outcome.splits option.splits)
  show ?thesis
    unfolding starts_world[of "getIDLCAuthToken 5", OF f]
    using assms
    by (simp add: resume_replicate split: post_outcome.splits option.splits)
qed


lemma answer_ws_in_flight:
  assumes "i < n"
  shows "in_flight (resume i (PostDone r) ((start (getIDLCAuthToken 5) ^^ n) (s, []))) =
     replicate (n - 1) (PostRequest Data_EmailID_Password) @
       (if auth_retryable r then [Timer 5000] else [])"
proof -
  have w: "map request_of (snd ((start (getIDLCAuthToken 5) ^^ m) (s, []))) =
        replicate m (PostRequest Data_EmailID_Password)" for m
    using callers_ws[of m "(s, [])"] by (simp add: in_flight_def)
  show ?thesis
    unfolding answer_ws[OF assms]
    by (simp add: in_flight_def w split: post_outcome.splits option.splits)
qed

lemma answer_sio:
  assumes nt: "\<not> truthy (sio_authToken s)" and "i < n" and "truthy (probe_token b)"
  shows "resume i (PostDone (PostResponse 200 b)) ((start (getAuthToken forceRefresh) ^^ n) (s, [])) =
     (io_emit (AuthStatusAuthenticated (sio_now s))
        (s\<lparr>sio_authToken := probe_token b,
           tokenExpiryTime := Some (sio_now s + 55 * 60 * 1000)\<rparr>),
      snd ((start (getAuthToken forceRefresh) ^^ (n - 1)) (s, [])))"
proof -
  from nt have f: "getAuthToken forceRefresh s = AwaitPost EmailID_Password s
     (\<lambda>r s1.
       case r of
         PostResponse status b \<Rightarrow>
           if status = 200 \<and> truthy (probe_token b) then
             Return (probe_token b)
               (io_emit (AuthStatusAuthenticated (sio_now s1))
                  (s1\<lparr>sio_authToken := probe_token b,
                      tokenExpiryTime := Some (sio_now s1 + 55 * 60 * 1000)\<rparr>))
           else try_payloads [Data_EmailID_Password, Email_password, Username_password] None s1
       | PostError c \<Rightarrow>
           try_payloads [Data_EmailID_Password, Email_password, Username_password]
             (Some (AxiosError c None)) s1)"
    by (simp add: getAuthToken_def payloadFormats_def)
  show ?thesis
    unfolding starts_world[of "getAuthToken forceRefresh", OF f]
    using assms(2,3)
    by (simp add: resume_replicate)
qed

text \<open>
  C2, as stated, fails: two calls of \<^verbatim>\<open>getAuthToken\<close> made while no token is stored, the
  second before the first has an answer, each post to the authentication endpoint.
\<close>

theorem two_callers_counterexample:
  "\<not> truthy (sio_authToken sio_init) \<and>
   in_flight (start (getAuthToken False) (start (getAuthToken False) (sio_init, []))) =
     [PostRequest EmailID_Password, PostRequest EmailID_Password] \<and>
   in_flight (start (getIDLCAuthToken 5) (start (getIDLCAuthToken 5) (ws_init, []))) =
     [PostRequest Data_EmailID_Password, PostRequest Data_EmailID_Password]"
  by (simp add: start_def getAuthToken_def payloadFormats_def in_flight_def sio_init_def
      getIDLCAuthToken_def getIDLCAuthToken_from.simps[of "Suc 0"])

text \<open>
  C2, amended. Neither server shares an authentication in flight. Every call of
  \<^verbatim>\<open>getIDLCAuthToken\<close> posts at once, and every call of \<^verbatim>\<open>getAuthToken\<close> made while no
  token is stored posts at once: \<open>n\<close> calls started before any answer arrives leave \<open>n\<close>
  authentication requests in flight, one for each caller, and the server's variables as
  they were. The answer to one of these requests resumes the call that made it and no
  other. When it is accepted, that call stores its token and ends, and what remains are
  the suspended calls of \<open>n - 1\<close> callers, each still waiting for the answer to its own
  request. In the WebSocket server, after any answer to one of the requests, the other
  \<open>n - 1\<close> requests are in flight, together with the pause of 5000 milliseconds of that
  one call when its answer was a transient error or a rejection.
\<close>

theorem every_caller_authenticates:
  "in_flight ((start (getIDLCAuthToken 5) ^^ n) w) =
     in_flight w @ replicate n (PostRequest Data_EmailID_Password) \<and>
   fst ((start (getIDLCAuthToken 5) ^^ n) w) = fst w \<and>
   (i < n \<and> resultCode b = Some ''200'' \<and> resultData b = Some t \<longrightarrow>
      resume i (PostDone (PostResponse st b)) ((start (getIDLCAuthToken 5) ^^ n) (s, [])) =
        (s\<lparr>authToken := t\<rparr>, snd ((start (getIDLCAuthToken 5) ^^ (n - 1)) (s, [])))) \<and>
   (i < n \<longrightarrow>
      in_flight (resume i (PostDone r) ((start (getIDLCAuthToken 5) ^^ n) (s, []))) =
        replicate (n - 1) (PostRequest Data_EmailID_Password) @
          (if auth_retryable r then [Timer 5000] else [])) \<and>
   (\<not> truthy (sio_authToken (fst v)) \<longrightarrow>
      in_flight ((start (getAuthToken forceRefresh) ^^ n) v) =
        in_flight v @ replicate n (PostRequest EmailID_Password) \<and>
      fst ((start (getAuthToken forceRefresh) ^^ n) v) = fst v) \<and>
   (\<not> truthy (sio_authToken sio) \<and> i < n \<and> truthy (probe_token b) \<longrightarrow>
      resume i (PostDone (PostResponse 200 b))
          ((start (getAuthToken forceRefresh) ^^ n) (sio, [])) =
        (io_emit (AuthStatusAuthenticated (sio_now sio))
           (sio\<lparr>sio_authToken := probe_token b,
              tokenExpiryTime := Some (sio_now sio + 55 * 60 * 1000)\<rparr>),
         snd ((start (getAuthToken forceRefresh) ^^ (n - 1)) (sio, []))))"
proof -
  note A = callers_ws[of n w, THEN conjunct1]
  note B = callers_ws[of n w, THEN conjunct2]
  have C: "i < n \<and> resultCode b = Some ''200'' \<and> resultData b = Some t \<longrightarrow>
      resume i (PostDone (PostResponse st b)) ((start (getIDLCAuthToken 5) ^^ n) (s, [])) =
        (s\<lparr>authToken := t\<rparr>, snd ((start (getIDLCAuthToken 5) ^^ (n - 1)) (s, [])))"
    by (simp add: answer_ws)
  have D: "i < n \<longrightarrow>
      in_flight (resume i (PostDone r) ((start (getIDLCAuthToken 5) ^^ n) (s, []))) =
        replicate (n - 1) (PostRequest Data_EmailID_Password) @
          (if auth_retryable r then [Timer 5000] else [])"
    by (intro impI) (rule answer_ws_in_flight)
  have E: "\<not> truthy (sio_authToken (fst v)) \<longrightarrow>
      in_flight ((start (getAuthToken forceRefresh) ^^ n) v) =
        in_flight v @ replicate n (PostRequest EmailID_Password) \<and>
      fst ((start (getAuthToken forceRefresh) ^^ n) v) = fst v"
    by (intro impI) (rule callers_sio)
  have F: "\<not> truthy (sio_authToken sio) \<and> i < n \<and> truthy (probe_token b) \<longrightarrow>
      resume i (PostDone (PostResponse 200 b))
          ((start (getAuthToken forceRefresh) ^^ n) (sio, [])) =
        (io_emit (AuthStatusAuthenticated (sio_now sio))
           (sio\<lparr>sio_authToken := probe_token b,
              tokenExpiryTime := Some (sio_now sio + 55 * 60 * 1000)\<rparr>),
         snd ((start (getAuthToken forceRefresh) ^^ (n - 1)) (sio, [])))"
    by (intro impI, elim conjE) (rule answer_sio)
  show ?thesis
    by (intro conjI) (rule A B C D E F)+
qed

theorem every_caller_authenticates_witness:
  "\<not> truthy (sio_authToken (fst (sio_init, []))) \<and>
   in_flight ((start (getAuthToken False) ^^ 3) (sio_init, [])) =
     [PostRequest EmailID_Password, PostRequest EmailID_Password, PostRequest EmailID_Password] \<and>
   fst (resume 1 (PostDone (PostResponse 200 accept_body))
     ((start (getIDLCAuthToken 5) ^^ 3) (ws_init, []))) = ws_init\<lparr>authToken := SString ''token''\<rparr> \<and>
   in_flight (resume 1 (PostDone (PostResponse 200 accept_body))
     ((start (getIDLCAuthToken 5) ^^ 3) (ws_init, []))) =
     [PostRequest Data_EmailID_Password, PostRequest Data_EmailID_Password] \<and>
   in_flight (resume 1 (PostDone (PostError ETIMEDOUT))
     ((start (getIDLCAuthToken 5) ^^ 3) (ws_init, []))) =
     [PostRequest Data_EmailID_Password, PostRequest Data_EmailID_Password, Timer 5000] \<and>
   sio_authToken (fst (resume 1 (PostDone (PostResponse 200 accept_body))
     ((start (getAuthToken False) ^^ 3) (sio_init, [])))) = SString ''token''"
proof -
  have h: "\<not> truthy (sio_authToken (fst (sio_init, [])))"
    and h': "\<not> truthy (sio_authToken sio_init)"
    by (simp_all add: sio_init_def)
  have p: "truthy (probe_token accept_body)" "probe_token accept_body = SString ''token''"
    by (simp_all add: probe_token_def accept_body_def)
  have c: "resultCode accept_body = Some ''200''" "resultData accept_body = Some (SString ''token'')"
    by (simp_all add: accept_body_def)
  have i: "(1::nat) < 3" by simp
  note th = every_caller_authenticates[where v="(sio_init, [])" and n=3 and forceRefresh=False
        and i=1 and b=accept_body and st=200 and t="SString ''token''" and s=ws_init
        and sio=sio_init]
  from th[where r="PostResponse 200 accept_body",
      THEN conjunct2, THEN conjunct2, THEN conjunct2, THEN conjunct2, THEN conjunct1,
      THEN mp, OF h]
  have a: "in_flight ((start (getAuthToken False) ^^ 3) (sio_init, [])) =
     [PostRequest EmailID_Password, PostRequest EmailID_Password, PostRequest EmailID_Password]"
    by (simp add: in_flight_def numeral_3_eq_3)
  from th[where r="PostResponse 200 accept_body", THEN conjunct2, THEN conjunct2, THEN conjunct1]
    i c
  have b: "fst (resume 1 (PostDone (PostResponse 200 accept_body))
     ((start (getIDLCAuthToken 5) ^^ 3) (ws_init, []))) = ws_init\<lparr>authToken := SString ''token''\<rparr>"
    by simp
  from th[where r="PostResponse 200 accept_body",
      THEN conjunct2, THEN conjunct2, THEN conjunct2, THEN conjunct1, THEN mp, OF i]
  have d: "in_flight (resume 1 (PostDone (PostResponse 200 accept_body))
     ((start (getIDLCAuthToken 5) ^^ 3) (ws_init, []))) =
     [PostRequest Data_EmailID_Password, PostRequest Data_EmailID_Password]"
    by (simp add: accept_body_def numeral_3_eq_3)
  from th[where r="PostError ETIMEDOUT",
      THEN conjunct2, THEN conjunct2, THEN conjunct2, THEN conjunct1, THEN mp, OF i]
  have e: "in_flight (resume 1 (PostDone (PostError ETIMEDOUT))
     ((start (getIDLCAuthToken 5) ^^ 3) (ws_init, []))) =
     [PostRequest Data_EmailID_Password, PostRequest Data_EmailID_Password, Timer 5000]"
    by (simp add: transient_auth_def numeral_3_eq_3)
  from th[where r="PostResponse 200 accept_body",
      THEN conjunct2, THEN conjunct2, THEN conjunct2, THEN conjunct2, THEN conjunct2]
    h' i p(1)
  have f: "sio_authToken (fst (resume 1 (PostDone (PostResponse 200 accept_body))
     ((start (getAuthToken False) ^^ 3) (sio_init, [])))) = SString ''token''"
    by (simp add: io_emit_def p(2))
  from h a b d e f show ?thesis by blast
qed

text \<open>
  C4, as stated, fails: the cron callback has no busy flag. With a token stored, a second
  tick that fires while the first cycle waits for its data request issues a data request of
  its own, and two cycles are running; when the first request is answered the first cycle
  stores its records while the second still waits.
\<close>

theorem overlapping_ticks_counterexample:
  "in_flight (ws_step CronTick (ws_with_AAA, [])) = [GetRequest (SString ''token'')] \<and>
   in_flight (ws_step CronTick (ws_step CronTick (ws_with_AAA, []))) =
     [GetRequest (SString ''token''), GetRequest (SString ''token'')] \<and>
   in_flight (ws_steps [CronTick, CronTick,
       Outcome 0 (GetDone (GetResponse 200 (BArray [Some stock_BBB])))] (ws_with_AAA, [])) =
     [GetRequest (SString ''token'')] \<and>
   latestStockMap (fst (ws_steps [CronTick, CronTick,
       Outcome 0 (GetDone (GetResponse 200 (BArray [Some stock_BBB])))] (ws_with_AAA, []))) =
     [(SString ''BBB'', mapItem stock_BBB)]"
  by (simp add: ws_steps_def start_def resume_def fetchAndBroadcastStockData_def
      getAllStockCompanies_def getAllStockCompanies_from.simps[of "Suc 0"] in_flight_def
      ws_with_AAA_def publish_def forEach_body_def Let_def mapItem_def
      stock_BBB_def stock_AAA_def)

text \<open>
  C4, amended. Every tick of the scheduler starts a cycle at once, whatever is still in
  flight: with a token stored the cycle issues its data request, without one its
  authentication request. So \<open>n\<close> ticks with no outcome arriving in between leave \<open>n\<close>
  cycles running side by side, each on a request of its own, after the calls that were
  already waiting.
\<close>

theorem every_tick_starts_a_cycle:
  "in_flight (ws_steps (replicate n CronTick) w) =
     in_flight w @
       replicate n (if truthy (authToken (fst w)) then GetRequest (authToken (fst w))
                    else PostRequest Data_EmailID_Password) \<and>
   fst (ws_steps (replicate n CronTick) w) = fst w"
  by (rule ticks)


end
